theory Spec2Isabelle
  imports Complex_Main "HOL-Library.Multiset" "HOL-Library.Sublist"
begin

section \<open>QuizBuilder.tsx: data model\<close>

text \<open>
  The component is modelled at the level of the values it holds at run time. TypeScript's
  interfaces are erased when the program runs: what \<^verbatim>\<open>JSON.parse\<close> returns is any JSON value,
  and the object spread \<^verbatim>\<open>{...q, id: ...}\<close> copies whatever own properties \<^verbatim>\<open>q\<close> has. A JSON
  number is kept as a rational; the code only observes whether it is zero.
  An object is an association list read with \<^const>\<open>map_of\<close>.
  JavaScript strings are modelled by \<^typ>\<open>string\<close>; the code compares characters with ASCII
  characters only, and the white space table of \<^verbatim>\<open>trim\<close> and \<^verbatim>\<open>parseInt\<close> is the part of
  JavaScript's table that falls below code unit 256.
\<close>

datatype json =
    JNull
  | JBool bool
  | JNum rat
  | JStr string
  | JArr "json list"
  | JObj "(string \<times> json) list"

text \<open>
  \<^verbatim>\<open>interface QuizQuestion { id; title; description; type }\<close>. The identifier is always a
  string built by the component itself; the other own properties (\<^verbatim>\<open>title\<close>,
  \<^verbatim>\<open>description\<close>, \<^verbatim>\<open>type\<close> and whatever else a generated question carries) are the
  property bag \<open>props\<close>.
\<close>

record QuizQuestion =
  qid :: string
  props :: "(string \<times> json) list"

datatype difficulty = facile | moyen | difficile

text \<open>
  The numbers that the question count can be: what \<^verbatim>\<open>parseInt\<close> returns is an integer
  that a double holds, an infinity, or \<^verbatim>\<open>NaN\<close>. Both zeros are \<open>Finite 0\<close>.
\<close>

datatype number = NaN | Finite int | PosInfinity | NegInfinity

record QuizParams =
  difficulty :: difficulty
  questionCount :: number

text \<open>
  \<^verbatim>\<open>interface QuizData { title; questions }\<close>: what \<^verbatim>\<open>generateQuizWithGPT\<close> returns. The
  title is whatever truthy JSON value the reply carried.
\<close>

record QuizData =
  title :: json
  quiz_questions :: "QuizQuestion list"

text \<open>
  The component's state, one field for each \<^verbatim>\<open>useState\<close>. A slot of the question array is
  \<open>None\<close> when it holds \<^verbatim>\<open>undefined\<close>, which \<^verbatim>\<open>splice\<close> can put there (see \<open>onDragEnd\<close>).
\<close>

record state =
  gptToken :: string
  pdfText :: string
  pdfName :: string
  quizParams :: QuizParams
  questions :: "QuizQuestion option list"
  quizTitle :: json
  loading :: bool

text \<open>
  Every \<^verbatim>\<open>throw\<close> and every rejected promise is a value of this type:
  \<^item> \<open>MissingToken\<close>: \<^verbatim>\<open>'GPT Token is missing!'\<close>;
  \<^item> \<open>ApiError status statusText\<close>: the message built from a response that is not ok;
  \<^item> \<open>InvalidFormat\<close>: \<^verbatim>\<open>'Format de reponse GPT invalide'\<close>;
  \<^item> \<open>MalformedJson\<close>: \<^verbatim>\<open>'Le JSON GPT est mal formate.'\<close>;
  \<^item> \<open>MissingFields\<close>: \<^verbatim>\<open>"Le JSON GPT ne contient pas 'title' ou 'questions'."\<close>;
  \<^item> \<open>TypeError\<close>: the run-time error of reading a property of \<^verbatim>\<open>undefined\<close> or \<^verbatim>\<open>null\<close>,
    or of calling what is not a function;
  \<^item> \<open>Rejected msg\<close>: a rejection that comes from outside the component (the network, the
    body reader, the file reader, the PDF library).
\<close>

datatype error =
    MissingToken
  | ApiError nat string
  | InvalidFormat
  | MalformedJson
  | MissingFields
  | TypeError
  | Rejected string

section \<open>Arrays: \<^verbatim>\<open>splice\<close> and \<^verbatim>\<open>reorder\<close>\<close>

text \<open>
  \<^verbatim>\<open>Array.prototype.splice(start, deleteCount, ...items)\<close> on integer arguments: a negative
  \<open>start\<close> counts from the end, every index is clamped into the array, and the call
  returns the removed elements. The first component is the array after the call.
\<close>

definition relative_index :: "nat \<Rightarrow> int \<Rightarrow> nat" where
  "relative_index len i = (if i < 0 then nat (max (int len + i) 0) else min (nat i) len)"

definition splice :: "'a list \<Rightarrow> int \<Rightarrow> int \<Rightarrow> 'a list \<Rightarrow> 'a list \<times> 'a list" where
  "splice xs start deleteCount items =
     (let k = relative_index (length xs) start;
          d = min (nat (max deleteCount 0)) (length xs - k)
      in (take k xs @ items @ drop (k + d) xs, take d (drop k xs)))"

text \<open>
  The destructuring \<^verbatim>\<open>const [removed] = ...\<close> reads index 0, which is \<^verbatim>\<open>undefined\<close> on an
  empty array.
\<close>

definition first_elem :: "'a option list \<Rightarrow> 'a option" where
  "first_elem xs = (case xs of [] \<Rightarrow> None | x # _ \<Rightarrow> x)"

text \<open>
  \<^verbatim>\<open>function reorder(list, startIndex, endIndex)\<close>, on the contents of the arrays.
\<close>

definition reorder :: "'a option list \<Rightarrow> int \<Rightarrow> int \<Rightarrow> 'a option list" where
  "reorder list startIndex endIndex =
     (let result = list;
          (result, removedArr) = splice result startIndex 1 [];
          removed = first_elem removedArr;
          (result, _) = splice result endIndex 0 [removed]
      in result)"

text \<open>
  The same function on a store, to see what it does to the array it is given. An array is
  a reference; the store maps references to contents, and \<open>next_ref\<close> is the first
  reference not yet handed out. \<^verbatim>\<open>Array.from(list)\<close> allocates, \<^verbatim>\<open>splice\<close> writes through
  the reference it is called on.
\<close>

record 'a store =
  contents :: "nat \<Rightarrow> 'a list"
  next_ref :: nat

definition Array_from :: "'a store \<Rightarrow> nat \<Rightarrow> 'a store \<times> nat" where
  "Array_from h r =
     (h\<lparr>contents := (contents h)(next_ref h := contents h r), next_ref := Suc (next_ref h)\<rparr>,
      next_ref h)"

definition splice_ref :: "'a store \<Rightarrow> nat \<Rightarrow> int \<Rightarrow> int \<Rightarrow> 'a list \<Rightarrow> 'a store \<times> 'a list" where
  "splice_ref h r start deleteCount items =
     (let (xs, removedArr) = splice (contents h r) start deleteCount items
      in (h\<lparr>contents := (contents h)(r := xs)\<rparr>, removedArr))"

definition reorder_ref :: "'a option store \<Rightarrow> nat \<Rightarrow> int \<Rightarrow> int \<Rightarrow> 'a option store \<times> nat" where
  "reorder_ref h list startIndex endIndex =
     (let (h, result) = Array_from h list;
          (h, removedArr) = splice_ref h result startIndex 1 [];
          removed = first_elem removedArr;
          (h, _) = splice_ref h result endIndex 0 [removed]
      in (h, result))"

text \<open>
  What the specification says of reordering, written on its own: take the element out of
  its position, put it back at the destination.
\<close>

fun remove_at :: "nat \<Rightarrow> 'a list \<Rightarrow> 'a list" where
  "remove_at _ [] = []"
| "remove_at 0 (x # xs) = xs"
| "remove_at (Suc n) (x # xs) = x # remove_at n xs"

fun insert_at :: "nat \<Rightarrow> 'a \<Rightarrow> 'a list \<Rightarrow> 'a list" where
  "insert_at 0 v xs = v # xs"
| "insert_at (Suc n) v [] = [v]"
| "insert_at (Suc n) v (x # xs) = x # insert_at n v xs"

section \<open>Drag and drop\<close>

text \<open>
  \<^verbatim>\<open>DropResult\<close> of the drag-and-drop library, as far as the handler reads it: the index
  the item came from, and the index it was dropped at, absent when it was dropped outside
  the list.
\<close>

record DropResult =
  source_index :: int
  destination :: "int option"

definition onDragEnd :: "DropResult \<Rightarrow> state \<Rightarrow> state" where
  "onDragEnd result s =
     (case destination result of
        None \<Rightarrow> s
      | Some destination_index \<Rightarrow>
          (let items = questions s;
               (items, removedArr) = splice items (source_index result) 1 [];
               reorderedItem = first_elem removedArr;
               (items, _) = splice items destination_index 0 [reorderedItem]
           in s\<lparr>questions := items\<rparr>))"

section \<open>Strings\<close>

text \<open>
  White space as \<^verbatim>\<open>String.prototype.trim\<close> and \<^verbatim>\<open>parseInt\<close> see it: tab, line feed,
  vertical tab, form feed, carriage return, space, no-break space.
\<close>

definition is_space :: "char \<Rightarrow> bool" where
  "is_space c = (c \<in> set [CHR 0x09, CHR 0x0A, CHR 0x0B, CHR 0x0C, CHR 0x0D, CHR 0x20, CHR 0xA0])"

definition trim :: "string \<Rightarrow> string" where
  "trim s = rev (dropWhile is_space (rev (dropWhile is_space s)))"

text \<open>\<^verbatim>\<open>Array.prototype.join(sep)\<close> on an array of strings.\<close>

fun join :: "string \<Rightarrow> string list \<Rightarrow> string" where
  "join sep [] = []"
| "join sep [x] = x"
| "join sep (x # y # ys) = x @ sep @ join sep (y # ys)"

text \<open>A number inside a template literal: its decimal digits, with a sign when negative.\<close>

definition digit_char :: "nat \<Rightarrow> char" where
  "digit_char d = ''0123456789'' ! d"

fun show_nat :: "nat \<Rightarrow> string" where
  "show_nat n = (if n < 10 then [digit_char n] else show_nat (n div 10) @ [digit_char (n mod 10)])"

declare show_nat.simps [simp del]

definition show_int :: "int \<Rightarrow> string" where
  "show_int i = (if i < 0 then CHR ''-'' # show_nat (nat (- i)) else show_nat (nat i))"

text \<open>
  The Number value of a natural number: the number itself below 2 to the power 53;
  beyond, the nearest number with a significand of 53 bits, a tie going to the even
  significand; \<open>None\<close>, for infinity, when that is 2 to the power 1024 or more.
\<close>

fun bit_length :: "nat \<Rightarrow> nat" where
  "bit_length n = (if n = 0 then 0 else Suc (bit_length (n div 2)))"

declare bit_length.simps [simp del]

definition to_double :: "nat \<Rightarrow> nat option" where
  "to_double n =
     (if n < 2 ^ 53 then Some n
      else
        (let e = bit_length n - 53;
             q = n div 2 ^ e;
             r = n mod 2 ^ e;
             half = 2 ^ (e - 1);
             m = (if half < r \<or> (r = half \<and> odd q) then q + 1 else q);
             v = m * 2 ^ e
         in if 2 ^ 1024 \<le> v then None else Some v))"

text \<open>
  \<^verbatim>\<open>parseInt(value, 10)\<close>: skip leading white space, read an optional sign, read the longest
  run of decimal digits; without a digit the result is \<^verbatim>\<open>NaN\<close>, otherwise it is the Number
  value of the integer read, with its sign. All the digits are read: the standard also
  lets an implementation take the digits after the twentieth for zeros.
\<close>

definition is_digit :: "char \<Rightarrow> bool" where
  "is_digit c = (c \<in> set ''0123456789'')"

definition digit_val :: "char \<Rightarrow> nat" where
  "digit_val c = of_char c - 48"

definition parseInt10 :: "string \<Rightarrow> number" where
  "parseInt10 value =
     (let S = dropWhile is_space value;
          (sign, S) = (case S of
                         [] \<Rightarrow> (1, S)
                       | c # rest \<Rightarrow>
                           if c = CHR ''-'' then (- 1, rest)
                           else if c = CHR ''+'' then (1, rest)
                           else (1, S));
          Z = takeWhile is_digit S
      in if Z = [] then NaN
         else
           (case to_double (foldl (\<lambda>acc c. 10 * acc + digit_val c) 0 Z) of
              None \<Rightarrow> if sign < 0 then NegInfinity else PosInfinity
            | Some v \<Rightarrow> Finite (sign * int v)))"

text \<open>\<^verbatim>\<open>!x\<close> on a number: \<^verbatim>\<open>NaN\<close> and the zeros are taken for false.\<close>

definition falsy_number :: "number \<Rightarrow> bool" where
  "falsy_number x = (x = NaN \<or> x = Finite 0)"

section \<open>\<^verbatim>\<open>parsePdf\<close>\<close>

text \<open>
  The file reader and the PDF library are outside the component. A file carries its name
  and what reading it gives (\<^verbatim>\<open>onload\<close> with the bytes, or \<^verbatim>\<open>onerror\<close>); a document carries
  its number of pages and what \<^verbatim>\<open>getPage\<close> resolves to; a page what \<^verbatim>\<open>getTextContent\<close>
  resolves to. \<^verbatim>\<open>pdfjsLib.getDocument\<close> is a parameter of \<open>parsePdf\<close>.
\<close>

record TextItem =
  str :: string

record TextContent =
  items :: "TextItem list"

record PDFPageProxy =
  getTextContent :: "error + TextContent"

record PDFDocumentProxy =
  numPages :: nat
  getPage :: "nat \<Rightarrow> error + PDFPageProxy"

record File =
  name :: string
  readAsArrayBuffer :: "error + nat list"

datatype console =
    Warn_no_text
  | Error_extraction error
  | Error_reading error

text \<open>The \<^verbatim>\<open>for\<close> loop over the pages, \<open>i\<close> and \<open>extractedText\<close> being its variables.\<close>

function extract_pages :: "PDFDocumentProxy \<Rightarrow> nat \<Rightarrow> string \<Rightarrow> error + string" where
  "extract_pages pdf i extractedText =
     (if i < numPages pdf then
        (case getPage pdf (i + 1) of
           Inl err \<Rightarrow> Inl err
         | Inr page \<Rightarrow>
             (case getTextContent page of
                Inl err \<Rightarrow> Inl err
              | Inr textContent \<Rightarrow>
                  (let pageText = trim (join '' '' (map str (items textContent)))
                   in extract_pages pdf (i + 1) (extractedText @ pageText @ [CHR 0x0A]))))
      else Inr extractedText)"
  by pat_completeness auto
termination
  by (relation "measure (\<lambda>(pdf, i, extractedText). numPages pdf - i)") auto

declare extract_pages.simps [simp del]

text \<open>
  \<open>parsePdf\<close> gives what was written to the console and how the promise settles:
  \<open>Inr\<close> when it resolves, \<open>Inl\<close> when it rejects.
\<close>

definition parsePdf ::
  "(nat list \<Rightarrow> error + PDFDocumentProxy) \<Rightarrow> File \<Rightarrow> console list \<times> (error + string)" where
  "parsePdf getDocument file =
     (case readAsArrayBuffer file of
        Inl err \<Rightarrow> ([Error_reading err], Inl err)
      | Inr typedarray \<Rightarrow>
          (case getDocument typedarray of
             Inl err \<Rightarrow> ([Error_extraction err], Inl err)
           | Inr pdf \<Rightarrow>
               (case extract_pages pdf 0 [] of
                  Inl err \<Rightarrow> ([Error_extraction err], Inl err)
                | Inr extractedText \<Rightarrow>
                    (if trim extractedText = [] then [Warn_no_text] else [],
                     Inr extractedText))))"

section \<open>\<^verbatim>\<open>generateQuizWithGPT\<close>\<close>

subsection \<open>The fenced block\<close>

text \<open>
  \<^verbatim>\<open>content.match(/```json\n([\s\S]*?)\n```/)\<close>. The engine tries the start positions from
  the left; at a position it needs the opening fence, then the lazy group takes the text
  up to the first closing fence. \<open>fenced_json\<close> gives \<^verbatim>\<open>jsonMatch[1]\<close>, and \<open>None\<close> when
  the match is \<^verbatim>\<open>null\<close>.
\<close>

definition fence_open :: string where
  "fence_open = ''```json'' @ [CHR 0x0A]"

definition fence_close :: string where
  "fence_close = CHR 0x0A # ''```''"

fun text_before :: "string \<Rightarrow> string \<Rightarrow> string option" where
  "text_before pat [] = (if pat = [] then Some [] else None)"
| "text_before pat (c # cs) =
     (if prefix pat (c # cs) then Some [] else map_option ((#) c) (text_before pat cs))"

definition match_here :: "string \<Rightarrow> string option" where
  "match_here s =
     (if prefix fence_open s then text_before fence_close (drop (length fence_open) s)
      else None)"

fun fenced_json :: "string \<Rightarrow> string option" where
  "fenced_json [] = match_here []"
| "fenced_json (c # cs) =
     (case match_here (c # cs) of Some g \<Rightarrow> Some g | None \<Rightarrow> fenced_json cs)"

text \<open>
  The pattern as a language: a string contains a match when it has the opening fence, any
  text, and the closing fence, in this order.
\<close>

definition contains_fenced_block :: "string \<Rightarrow> bool" where
  "contains_fenced_block content =
     (\<exists>pre body post. content = pre @ fence_open @ body @ fence_close @ post)"

text \<open>
  What the group of a match holds: the match starts at the leftmost opening fence, and the
  group is the text from there to the first closing fence that follows. \<open>occurs_at pat s n\<close>
  says that \<open>pat\<close> stands in \<open>s\<close> at position \<open>n\<close>.
\<close>

definition occurs_at :: "string \<Rightarrow> string \<Rightarrow> nat \<Rightarrow> bool" where
  "occurs_at pat s n = prefix pat (drop n s)"

definition extracted_block :: "string \<Rightarrow> string \<Rightarrow> bool" where
  "extracted_block content body =
     (\<exists>pre post. content = pre @ fence_open @ body @ fence_close @ post
        \<and> (\<forall>n<length pre. \<not> occurs_at fence_open content n)
        \<and> (\<forall>n<length body. \<not> occurs_at fence_close (body @ fence_close @ post) n))"


subsection \<open>Reading properties\<close>

text \<open>
  A value that may be \<^verbatim>\<open>undefined\<close> is a \<^typ>\<open>json option\<close>. \<open>get_prop k v\<close> is \<^verbatim>\<open>v.k\<close> for the
  names the code reads (\<^verbatim>\<open>choices\<close>, \<^verbatim>\<open>message\<close>, \<^verbatim>\<open>content\<close>, \<^verbatim>\<open>questions\<close>, \<^verbatim>\<open>title\<close>),
  none of which a prototype defines: reading from \<^verbatim>\<open>undefined\<close> or \<^verbatim>\<open>null\<close> throws, an
  object gives its own property, anything else gives \<^verbatim>\<open>undefined\<close>. \<open>index0 v\<close> is
  \<^verbatim>\<open>v[0]\<close>.
\<close>

fun get_prop :: "string \<Rightarrow> json option \<Rightarrow> error + json option" where
  "get_prop k None = Inl TypeError"
| "get_prop k (Some JNull) = Inl TypeError"
| "get_prop k (Some (JObj kvs)) = Inr (map_of kvs k)"
| "get_prop k (Some _) = Inr None"

fun index0 :: "json option \<Rightarrow> error + json option" where
  "index0 None = Inl TypeError"
| "index0 (Some JNull) = Inl TypeError"
| "index0 (Some (JArr xs)) = Inr (case xs of [] \<Rightarrow> None | x # _ \<Rightarrow> Some x)"
| "index0 (Some (JStr s)) = Inr (case s of [] \<Rightarrow> None | c # _ \<Rightarrow> Some (JStr [c]))"
| "index0 (Some (JObj kvs)) = Inr (map_of kvs ''0'')"
| "index0 (Some _) = Inr None"

text \<open>\<^verbatim>\<open>data.choices[0].message.content\<close>\<close>

definition reply_content :: "json \<Rightarrow> error + json option" where
  "reply_content data =
     (case get_prop ''choices'' (Some data) of
        Inl err \<Rightarrow> Inl err
      | Inr choices \<Rightarrow>
          (case index0 choices of
             Inl err \<Rightarrow> Inl err
           | Inr choice \<Rightarrow>
               (case get_prop ''message'' choice of
                  Inl err \<Rightarrow> Inl err
                | Inr message \<Rightarrow> get_prop ''content'' message)))"

text \<open>\<^verbatim>\<open>!v\<close>: the values JavaScript takes for false.\<close>

fun falsy :: "json option \<Rightarrow> bool" where
  "falsy None = True"
| "falsy (Some JNull) = True"
| "falsy (Some (JBool b)) = (\<not> b)"
| "falsy (Some (JNum n)) = (n = 0)"
| "falsy (Some (JStr s)) = (s = [])"
| "falsy (Some (JArr _)) = False"
| "falsy (Some (JObj _)) = False"

subsection \<open>Re-stamping the identifiers\<close>

text \<open>
  The own enumerable properties that \<^verbatim>\<open>{...q}\<close> copies: those of an object, the indices of
  an array or of a string, nothing for \<^verbatim>\<open>null\<close>, a boolean or a number.
\<close>

fun spread :: "json \<Rightarrow> (string \<times> json) list" where
  "spread (JObj kvs) = kvs"
| "spread (JArr xs) = zip (map show_nat [0..<length xs]) xs"
| "spread (JStr s) = zip (map show_nat [0..<length s]) (map (\<lambda>c. JStr [c]) s)"
| "spread _ = []"

text \<open>
  \<^verbatim>\<open>{...q, id: `question-${index}-${Date.now()}`}\<close>. \<open>now index\<close> is what \<^verbatim>\<open>Date.now()\<close>
  returns when the question at \<open>index\<close> is stamped.
\<close>

definition stamp_id :: "(nat \<Rightarrow> int) \<Rightarrow> nat \<Rightarrow> string" where
  "stamp_id now index = ''question-'' @ show_nat index @ ''-'' @ show_int (now index)"

definition stamp :: "(nat \<Rightarrow> int) \<Rightarrow> nat \<Rightarrow> json \<Rightarrow> QuizQuestion" where
  "stamp now index q =
     \<lparr>qid = stamp_id now index,
      props = filter (\<lambda>(k, v). k \<noteq> ''id'') (spread q)\<rparr>"

definition restamp :: "(nat \<Rightarrow> int) \<Rightarrow> json list \<Rightarrow> QuizQuestion list" where
  "restamp now qs = map (\<lambda>(index, q). stamp now index q) (enumerate 0 qs)"

subsection \<open>The request and the function\<close>

text \<open>
  The request is determined by the token, the parameters and the text; the network answers
  it with a rejection or a response, whose body reader \<^verbatim>\<open>response.json()\<close> resolves or
  rejects. \<^verbatim>\<open>fetch\<close>, \<^verbatim>\<open>JSON.parse\<close> (\<open>None\<close> when it throws) and the clock are the
  environment of a call.
\<close>

record Request =
  authorization :: string
  system_difficulty :: difficulty
  system_questionCount :: number
  user_pdfText :: string

record Response =
  ok :: bool
  status :: nat
  statusText :: string
  json_body :: "error + json"

record env =
  fetch :: "Request \<Rightarrow> error + Response"
  JSON_parse :: "string \<Rightarrow> json option"
  Date_now :: "nat \<Rightarrow> int"

text \<open>
  The \<^verbatim>\<open>try\<close> block: \<^verbatim>\<open>JSON.parse\<close>, then \<^verbatim>\<open>quiz.questions.map(...)\<close>, whose \<^verbatim>\<open>map\<close> exists
  only when \<^verbatim>\<open>quiz.questions\<close> is an array. Whatever is thrown inside is caught and
  replaced by \<open>MalformedJson\<close>. What comes out is the parsed value together with the
  re-stamped array that the block has assigned to \<^verbatim>\<open>quiz.questions\<close>.
\<close>

definition parse_and_restamp :: "env \<Rightarrow> string \<Rightarrow> error + json \<times> QuizQuestion list" where
  "parse_and_restamp e jsonContent =
     (case JSON_parse e jsonContent of
        None \<Rightarrow> Inl MalformedJson
      | Some quiz \<Rightarrow>
          (case get_prop ''questions'' (Some quiz) of
             Inl err \<Rightarrow> Inl MalformedJson
           | Inr (Some (JArr qs)) \<Rightarrow> Inr (quiz, restamp (Date_now e) qs)
           | Inr _ \<Rightarrow> Inl MalformedJson))"

text \<open>
  The check after the \<^verbatim>\<open>try\<close> block, \<^verbatim>\<open>!quiz.title || !Array.isArray(quiz.questions)\<close>.
  \<^verbatim>\<open>Array.isArray\<close> is asked of the array that \<^verbatim>\<open>map\<close> has just returned.
\<close>

definition Array_isArray :: "QuizQuestion list \<Rightarrow> bool" where
  "Array_isArray qs = True"

definition validate :: "json \<times> QuizQuestion list \<Rightarrow> error + QuizData" where
  "validate quiz =
     (case quiz of (parsed, qs) \<Rightarrow>
        (case get_prop ''title'' (Some parsed) of
           Inl err \<Rightarrow> Inl err
         | Inr t \<Rightarrow>
             if falsy t \<or> \<not> Array_isArray qs then Inl MissingFields
             else Inr \<lparr>title = the t, quiz_questions = qs\<rparr>))"

definition generateQuizWithGPT :: "env \<Rightarrow> string \<Rightarrow> string \<Rightarrow> QuizParams \<Rightarrow> error + QuizData" where
  "generateQuizWithGPT e token text params =
     (if token = [] then Inl MissingToken
      else
        (case fetch e \<lparr>authorization = token,
                       system_difficulty = difficulty params,
                       system_questionCount = questionCount params,
                       user_pdfText = text\<rparr> of
           Inl err \<Rightarrow> Inl err
         | Inr response \<Rightarrow>
             if \<not> ok response then Inl (ApiError (status response) (statusText response))
             else
               (case json_body response of
                  Inl err \<Rightarrow> Inl err
                | Inr data \<Rightarrow>
                    (case reply_content data of
                       Inl err \<Rightarrow> Inl err
                     | Inr (Some (JStr content)) \<Rightarrow>
                         (case fenced_json content of
                            None \<Rightarrow> Inl InvalidFormat
                          | Some jsonContent \<Rightarrow>
                              (case parse_and_restamp e jsonContent of
                                 Inl err \<Rightarrow> Inl err
                               | Inr quiz \<Rightarrow> validate quiz))
                     | Inr _ \<Rightarrow> Inl TypeError))))"

section \<open>The handlers of \<^verbatim>\<open>QuizBuilder\<close>\<close>

text \<open>
  A handler takes the state of the render it was created in and gives the state after it
  has run; the awaited calls are taken as single steps. A handler that can raise an alert
  also gives the alert.
\<close>

datatype alert =
    Alert_missing_token_or_pdf
  | Alert_unreadable_pdf
  | Alert_error error

definition initial_state :: state where
  "initial_state =
     \<lparr>gptToken = [], pdfText = [], pdfName = [],
      quizParams = \<lparr>difficulty = facile, questionCount = Finite 5\<rparr>,
      questions = [],
      quizTitle = JStr (''Mon Quiz Personnalis'' @ [CHR 0xE9]),
      loading = False\<rparr>"

definition setGptToken :: "string \<Rightarrow> state \<Rightarrow> state" where
  "setGptToken v s = s\<lparr>gptToken := v\<rparr>"

definition setQuizTitle :: "string \<Rightarrow> state \<Rightarrow> state" where
  "setQuizTitle v s = s\<lparr>quizTitle := JStr v\<rparr>"

text \<open>\<^verbatim>\<open>handlePdfUpload\<close>: \<open>file\<close> is \<^verbatim>\<open>event.target.files?.[0]\<close>.\<close>

definition handlePdfUpload ::
  "(nat list \<Rightarrow> error + PDFDocumentProxy) \<Rightarrow> File option \<Rightarrow> state \<Rightarrow> alert option \<times> state" where
  "handlePdfUpload getDocument file s =
     (case file of
        None \<Rightarrow> (None, s)
      | Some f \<Rightarrow>
          (let s = s\<lparr>pdfName := name f\<rparr>
           in case snd (parsePdf getDocument f) of
                Inr text \<Rightarrow> (None, s\<lparr>pdfText := text\<rparr>)
              | Inl err \<Rightarrow> (Some Alert_unreadable_pdf, s)))"

text \<open>The two parameter fields.\<close>

definition onDifficultyChange :: "difficulty \<Rightarrow> state \<Rightarrow> state" where
  "onDifficultyChange v s = s\<lparr>quizParams := (quizParams s)\<lparr>difficulty := v\<rparr>\<rparr>"

text \<open>\<^verbatim>\<open>parseInt(e.target.value, 10) || 5\<close>: the default replaces \<^verbatim>\<open>NaN\<close> and zero.\<close>

definition onQuestionCountChange :: "string \<Rightarrow> state \<Rightarrow> state" where
  "onQuestionCountChange v s =
     s\<lparr>quizParams := (quizParams s)\<lparr>questionCount :=
        (if falsy_number (parseInt10 v) then Finite 5 else parseInt10 v)\<rparr>\<rparr>"

text \<open>
  \<^verbatim>\<open>addQuestion\<close>: \<open>now\<close> is \<^verbatim>\<open>Date.now()\<close> and \<open>rnd\<close> is
  \<^verbatim>\<open>Math.random().toString(36).substr(2, 9)\<close> at the time of the call.
\<close>

definition new_id :: "int \<Rightarrow> string \<Rightarrow> string" where
  "new_id now rnd = ''question-'' @ show_int now @ ''-'' @ rnd"

definition addQuestion :: "int \<Rightarrow> string \<Rightarrow> state \<Rightarrow> state" where
  "addQuestion now rnd s =
     (let newQuestion =
            \<lparr>qid = new_id now rnd,
             props = [(''title'', JStr ''Nouvelle question''),
                      (''description'', JStr []),
                      (''type'', JStr ''courte'')]\<rparr>
      in s\<lparr>questions := questions s @ [Some newQuestion]\<rparr>)"

text \<open>
  \<^verbatim>\<open>filter\<close> and \<^verbatim>\<open>map\<close> with a callback that can throw: the first throw ends the call.
  \<open>id_of q\<close> is \<^verbatim>\<open>q.id\<close>, which throws on \<^verbatim>\<open>undefined\<close>.
\<close>

fun filter_js :: "('a \<Rightarrow> error + bool) \<Rightarrow> 'a list \<Rightarrow> error + 'a list" where
  "filter_js p [] = Inr []"
| "filter_js p (x # xs) =
     (case p x of
        Inl err \<Rightarrow> Inl err
      | Inr b \<Rightarrow>
          (case filter_js p xs of
             Inl err \<Rightarrow> Inl err
           | Inr ys \<Rightarrow> Inr (if b then x # ys else ys)))"

fun map_js :: "('a \<Rightarrow> error + 'b) \<Rightarrow> 'a list \<Rightarrow> error + 'b list" where
  "map_js f [] = Inr []"
| "map_js f (x # xs) =
     (case f x of
        Inl err \<Rightarrow> Inl err
      | Inr y \<Rightarrow>
          (case map_js f xs of
             Inl err \<Rightarrow> Inl err
           | Inr ys \<Rightarrow> Inr (y # ys)))"

definition id_of :: "QuizQuestion option \<Rightarrow> error + string" where
  "id_of q = (case q of None \<Rightarrow> Inl TypeError | Some q' \<Rightarrow> Inr (qid q'))"

definition removeQuestion :: "string \<Rightarrow> state \<Rightarrow> error + state" where
  "removeQuestion ident s =
     (case filter_js (\<lambda>q. case id_of q of Inl err \<Rightarrow> Inl err | Inr i \<Rightarrow> Inr (i \<noteq> ident))
             (questions s) of
        Inl err \<Rightarrow> Inl err
      | Inr qs \<Rightarrow> Inr (s\<lparr>questions := qs\<rparr>))"

text \<open>
  The three field editors of a card differ in the property they write:
  \<^verbatim>\<open>prev.map((q) => q.id === question.id ? { ...q, field: v } : q)\<close>.
\<close>

fun set_prop :: "string \<Rightarrow> json \<Rightarrow> (string \<times> json) list \<Rightarrow> (string \<times> json) list" where
  "set_prop k v [] = [(k, v)]"
| "set_prop k v ((k', v') # kvs) =
     (if k' = k then (k, v) # kvs else (k', v') # set_prop k v kvs)"

definition edit_question :: "string \<Rightarrow> string \<Rightarrow> string \<Rightarrow> state \<Rightarrow> error + state" where
  "edit_question field ident v s =
     (case map_js (\<lambda>q. case id_of q of
                         Inl err \<Rightarrow> Inl err
                       | Inr i \<Rightarrow>
                           Inr (if i = ident
                                then map_option (\<lambda>q'. q'\<lparr>props := set_prop field (JStr v) (props q')\<rparr>) q
                                else q))
             (questions s) of
        Inl err \<Rightarrow> Inl err
      | Inr qs \<Rightarrow> Inr (s\<lparr>questions := qs\<rparr>))"

text \<open>\<^verbatim>\<open>generateQuiz\<close>\<close>

definition generateQuiz :: "env \<Rightarrow> state \<Rightarrow> alert option \<times> state" where
  "generateQuiz e s =
     (if gptToken s = [] \<or> pdfText s = [] then (Some Alert_missing_token_or_pdf, s)
      else
        (let s = s\<lparr>loading := True\<rparr>
         in case generateQuizWithGPT e (gptToken s) (pdfText s) (quizParams s) of
              Inr quiz \<Rightarrow>
                (None, s\<lparr>questions := map Some (quiz_questions quiz),
                          quizTitle := title quiz,
                          loading := False\<rparr>)
            | Inl err \<Rightarrow> (Some (Alert_error err), s\<lparr>loading := False\<rparr>)))"

section \<open>The component as a transition system\<close>

text \<open>
  One event for each handler, with what the environment contributes to it. A run stops at
  the first handler that throws.
\<close>

datatype event =
    SetGptToken string
  | PdfUpload "nat list \<Rightarrow> error + PDFDocumentProxy" "File option"
  | DifficultyChange difficulty
  | QuestionCountChange string
  | GenerateQuiz env
  | SetQuizTitle string
  | AddQuestion int string
  | DragEnd DropResult
  | EditTitle string string
  | EditDescription string string
  | EditType string string
  | RemoveQuestion string

fun step :: "event \<Rightarrow> state \<Rightarrow> error + state" where
  "step (SetGptToken v) s = Inr (setGptToken v s)"
| "step (PdfUpload getDocument file) s = Inr (snd (handlePdfUpload getDocument file s))"
| "step (DifficultyChange v) s = Inr (onDifficultyChange v s)"
| "step (QuestionCountChange v) s = Inr (onQuestionCountChange v s)"
| "step (GenerateQuiz e) s = Inr (snd (generateQuiz e s))"
| "step (SetQuizTitle v) s = Inr (setQuizTitle v s)"
| "step (AddQuestion now rnd) s = Inr (addQuestion now rnd s)"
| "step (DragEnd result) s = Inr (onDragEnd result s)"
| "step (EditTitle ident v) s = edit_question ''title'' ident v s"
| "step (EditDescription ident v) s = edit_question ''description'' ident v s"
| "step (EditType ident v) s = edit_question ''type'' ident v s"
| "step (RemoveQuestion ident) s = removeQuestion ident s"

fun run :: "event list \<Rightarrow> state \<Rightarrow> error + state" where
  "run [] s = Inr s"
| "run (ev # evs) s = (case step ev s of Inl err \<Rightarrow> Inl err | Inr s' \<Rightarrow> run evs s')"

text \<open>The identifiers of the questions in the list, in order.\<close>

definition question_ids :: "state \<Rightarrow> string list" where
  "question_ids s = List.map_filter (map_option qid) (questions s)"

text \<open>
  Two conditions on what the environment contributes to an event in a given state: a
  manual add draws an identifier that no question of the list has, and a drop inside the
  list comes with indices of the list, as the drag-and-drop library reports them.
  \<open>along P evs s\<close> says that \<open>P\<close> holds of every event of a run in the state it meets.
\<close>

fun add_fresh :: "event \<Rightarrow> state \<Rightarrow> bool" where
  "add_fresh (AddQuestion now rnd) s = (new_id now rnd \<notin> set (question_ids s))"
| "add_fresh _ s = True"

fun drop_in_range :: "event \<Rightarrow> state \<Rightarrow> bool" where
  "drop_in_range (DragEnd result) s =
     (case destination result of
        None \<Rightarrow> True
      | Some d \<Rightarrow>
          0 \<le> source_index result \<and> nat (source_index result) < length (questions s) \<and>
          0 \<le> d \<and> nat d < length (questions s))"
| "drop_in_range _ s = True"

fun along :: "(event \<Rightarrow> state \<Rightarrow> bool) \<Rightarrow> event list \<Rightarrow> state \<Rightarrow> bool" where
  "along P [] s = True"
| "along P (ev # evs) s =
     (P ev s \<and> (case step ev s of Inl err \<Rightarrow> True | Inr s' \<Rightarrow> along P evs s'))"

section \<open>The text of a document, as the specification describes it\<close>

text \<open>
  A page gives its items joined by single spaces, trimmed, and followed by a line feed; a
  document gives its pages one after the other.
\<close>

definition page_text :: "TextContent \<Rightarrow> string" where
  "page_text textContent = trim (join '' '' (map str (items textContent))) @ [CHR 0x0A]"

definition document_text :: "TextContent list \<Rightarrow> string" where
  "document_text pages = concat (map page_text pages)"

section \<open>Concrete inputs\<close>

text \<open>
  A one-page document whose only item is a space, and a two-page document with text on
  its first page.
\<close>

definition blank_pdf :: PDFDocumentProxy where
  "blank_pdf =
     \<lparr>numPages = 1,
      getPage = (\<lambda>n. Inr \<lparr>getTextContent = Inr \<lparr>items = [\<lparr>str = '' ''\<rparr>]\<rparr>\<rparr>)\<rparr>"

definition two_page_pdf :: PDFDocumentProxy where
  "two_page_pdf =
     \<lparr>numPages = 2,
      getPage = (\<lambda>n. Inr \<lparr>getTextContent =
                   Inr \<lparr>items = (if n = 1 then [\<lparr>str = ''Hello''\<rparr>, \<lparr>str = ''world ''\<rparr>]
                                 else [])\<rparr>\<rparr>)\<rparr>"

definition pdf_file :: File where
  "pdf_file = \<lparr>name = ''notes.pdf'', readAsArrayBuffer = Inr [37, 80, 68, 70]\<rparr>"

text \<open>
  The body of a chat completion whose message has the given content, and an environment
  that answers every request with it. \<open>table\<close> lists what \<^verbatim>\<open>JSON.parse\<close> returns on the
  strings it is given; on any other string it throws.
\<close>

definition chat_completion :: "string \<Rightarrow> json" where
  "chat_completion content =
     JObj [(''choices'',
            JArr [JObj [(''message'',
                         JObj [(''role'', JStr ''assistant''), (''content'', JStr content)])]])]"

definition replying :: "string \<Rightarrow> (string \<times> json) list \<Rightarrow> env" where
  "replying content table =
     \<lparr>fetch = (\<lambda>request. Inr \<lparr>ok = True, status = 200, statusText = ''OK'',
                                  json_body = Inr (chat_completion content)\<rparr>),
      JSON_parse = map_of table,
      Date_now = (\<lambda>index. 1700000000000)\<rparr>"

definition unauthorized :: env where
  "unauthorized =
     \<lparr>fetch = (\<lambda>request. Inr \<lparr>ok = False, status = 401, statusText = ''Unauthorized'',
                                  json_body = Inr JNull\<rparr>),
      JSON_parse = (\<lambda>text. None),
      Date_now = (\<lambda>index. 1700000000000)\<rparr>"

definition default_params :: QuizParams where
  "default_params = \<lparr>difficulty = facile, questionCount = Finite 5\<rparr>"

text \<open>Three JSON texts and what \<^verbatim>\<open>JSON.parse\<close> makes of them.\<close>

definition title_only :: string where
  \<open>title_only = ''{"title":"T"}''\<close>

definition title_only_parsed :: json where
  "title_only_parsed = JObj [(''title'', JStr ''T'')]"

definition empty_title_only :: string where
  \<open>empty_title_only = ''{"title":""}''\<close>

definition empty_title_only_parsed :: json where
  "empty_title_only_parsed = JObj [(''title'', JStr [])]"

definition empty_title_quiz :: string where
  \<open>empty_title_quiz = ''{"title":"","questions":[]}''\<close>

definition empty_title_quiz_parsed :: json where
  "empty_title_quiz_parsed = JObj [(''title'', JStr []), (''questions'', JArr [])]"

text \<open>
  A state with a token and a document loaded, a PDF library that rejects what it is given,
  a reply with two questions that carry the same identifier, and a sequence of events
  that goes through every kind of list operation.
\<close>

definition loaded_state :: state where
  "loaded_state =
     initial_state\<lparr>gptToken := ''sk-1'', pdfText := ''Chapter one'' @ [CHR 0x0A],
                   pdfName := ''course.pdf''\<rparr>"

definition rejecting_document :: "nat list \<Rightarrow> error + PDFDocumentProxy" where
  "rejecting_document bytes = Inl (Rejected ''Invalid PDF structure'')"

definition two_questions :: string where
  \<open>two_questions = ''{"title":"Quiz","questions":[{"id":1,"title":"A"},{"id":1,"title":"B"}]}''\<close>

definition two_questions_parsed :: json where
  "two_questions_parsed =
     JObj [(''title'', JStr ''Quiz''),
           (''questions'',
            JArr [JObj [(''id'', JNum 1), (''title'', JStr ''A'')],
                  JObj [(''id'', JNum 1), (''title'', JStr ''B'')]])]"

text \<open>A reply with text around a first block, and a second block after it.\<close>

definition wrapped_reply :: string where
  "wrapped_reply =
     ''Voici le quiz :'' @ [CHR 0x0A] @ fence_open @ two_questions @ fence_close @ [CHR 0x0A]
     @ ''Autre bloc :'' @ fence_open @ title_only @ fence_close"

definition sample_events :: "event list" where
  "sample_events =
     [AddQuestion 1700000000000 ''k3j9x0a1b'',
      GenerateQuiz (replying (fence_open @ two_questions @ fence_close)
                      [(two_questions, two_questions_parsed)]),
      AddQuestion 1700000000000 ''k3j9x0a1b'',
      AddQuestion 1700000000000 ''zz81hq2mc'',
      DragEnd \<lparr>source_index = 0, destination = Some 3\<rparr>,
      EditTitle ''question-1700000000000-k3j9x0a1b'' ''Why?'',
      RemoveQuestion ''question-0-1700000000000'',
      PdfUpload rejecting_document (Some pdf_file)]"

section \<open>Reordering: results\<close>

lemma remove_at_take_drop: "remove_at n xs = take n xs @ drop (Suc n) xs"
  by (induction n xs rule: remove_at.induct) simp_all

lemma insert_at_take_drop: "insert_at n v xs = take n xs @ v # drop n xs"
  by (induction n v xs rule: insert_at.induct) simp_all

lemma reorder_take_drop:
  assumes "0 \<le> s" and "nat s < length xs" and "0 \<le> e" and "nat e < length xs"
  shows "reorder xs s e = insert_at (nat e) (xs ! nat s) (remove_at (nat s) xs)"
proof -
  let ?ys = "take (nat s) xs @ drop (Suc (nat s)) xs"
  have len: "length ?ys = length xs - 1"
    using assms by simp
  have k: "relative_index (length xs) s = nat s"
    using assms by (simp add: relative_index_def)
  have d: "min (nat (max 1 0)) (length xs - nat s) = 1"
    using assms by simp
  have one: "take 1 (drop (nat s) xs) = [xs ! nat s]"
    using assms by (simp add: take_Suc_conv_app_nth)
  have first: "splice xs s 1 [] = (?ys, [xs ! nat s])"
    unfolding splice_def Let_def k d one by simp
  have second: "fst (splice ?ys e 0 [v]) = take (nat e) ?ys @ v # drop (nat e) ?ys" for v
    using assms len
    by (simp add: splice_def relative_index_def Let_def min_def del: take_append drop_append)
  show ?thesis
    using first second [of "xs ! nat s"]
    by (simp add: reorder_def first_elem_def Let_def split_beta remove_at_take_drop
        insert_at_take_drop del: take_append drop_append)
qed

lemma mset_remove_at: "n < length xs \<Longrightarrow> add_mset (xs ! n) (mset (remove_at n xs)) = mset xs"
  by (induction n xs rule: remove_at.induct) simp_all

lemma mset_insert_at: "mset (insert_at n v xs) = add_mset v (mset xs)"
  by (induction n v xs rule: insert_at.induct) simp_all

lemma length_remove_at: "n < length xs \<Longrightarrow> length (remove_at n xs) = length xs - 1"
  by (induction n xs rule: remove_at.induct) simp_all

lemma length_insert_at: "length (insert_at n v xs) = Suc (length xs)"
  by (induction n v xs rule: insert_at.induct) simp_all

lemma onDragEnd_reorder:
  "destination result = Some d \<Longrightarrow>
   questions (onDragEnd result s) = reorder (questions s) (source_index result) d"
  by (simp add: onDragEnd_def reorder_def Let_def split_beta)

text \<open>
  C5. For a list and two indices inside it, \<open>reorder\<close> gives the list with the element at
  \<open>startIndex\<close> taken out and put back at position \<open>endIndex\<close>; the result has the length
  of the input and the same elements with the same multiplicities.
\<close>

theorem reorder_moves_element:
  assumes "0 \<le> startIndex" and "nat startIndex < length list"
    and "0 \<le> endIndex" and "nat endIndex < length list"
  shows "reorder list startIndex endIndex =
           insert_at (nat endIndex) (list ! nat startIndex) (remove_at (nat startIndex) list)
         \<and> length (reorder list startIndex endIndex) = length list
         \<and> mset (reorder list startIndex endIndex) = mset list"
proof -
  have eq: "reorder list startIndex endIndex =
              insert_at (nat endIndex) (list ! nat startIndex) (remove_at (nat startIndex) list)"
    using assms by (rule reorder_take_drop)
  have len: "length (reorder list startIndex endIndex) = length list"
    using assms(2) by (simp add: eq length_insert_at length_remove_at)
  have ms: "mset (reorder list startIndex endIndex) = mset list"
    using assms(2) by (simp add: eq mset_insert_at mset_remove_at)
  from eq len ms show ?thesis by simp
qed

theorem reorder_moves_element_witness:
  "(0::int) \<le> 0 \<and> nat 0 < length [Some (1::nat), Some 2, Some 3] \<and> (0::int) \<le> 2
   \<and> nat 2 < length [Some (1::nat), Some 2, Some 3]
   \<and> reorder [Some (1::nat), Some 2, Some 3] 0 2 = [Some 2, Some 3, Some 1]
   \<and> length (reorder [Some (1::nat), Some 2, Some 3] 0 2) = 3
   \<and> mset (reorder [Some (1::nat), Some 2, Some 3] 0 2) = mset [Some 1, Some 2, Some 3]"
  using reorder_moves_element [of 0 "[Some (1::nat), Some 2, Some 3]" 2]
  by (simp add: numeral_2_eq_2)

section \<open>Reordering leaves its argument alone\<close>

lemma Array_from_facts:
  "Array_from h r = (h', r') \<Longrightarrow>
     r' = next_ref h \<and> contents h' = (contents h)(next_ref h := contents h r)"
  by (auto simp: Array_from_def)

lemma splice_ref_facts:
  "splice_ref h r start deleteCount its = (h', removedArr) \<Longrightarrow>
     contents h' = (contents h)(r := fst (splice (contents h r) start deleteCount its))
     \<and> removedArr = snd (splice (contents h r) start deleteCount its)"
  by (auto simp: splice_ref_def split_beta)

lemma reorder_ref_result: "snd (reorder_ref h list s e) = next_ref h"
  by (simp add: reorder_ref_def Array_from_def splice_ref_def split_beta Let_def)

lemma reorder_ref_contents:
  "contents (fst (reorder_ref h list s e)) =
     (contents h)(next_ref h := reorder (contents h list) s e)"
  by (simp add: reorder_ref_def Array_from_def splice_ref_def reorder_def split_beta Let_def)

text \<open>
  C8. \<open>reorder\<close> does not change the array it is given: after the call the array behind
  \<open>list\<close> holds what it held before, and so does every other array that existed; the
  result is a new array, which holds the reordered elements. This holds for all indices.
\<close>

theorem reorder_ref_keeps_input:
  assumes "list < next_ref h"
  shows "contents (fst (reorder_ref h list startIndex endIndex)) list = contents h list
         \<and> snd (reorder_ref h list startIndex endIndex) \<noteq> list
         \<and> contents (fst (reorder_ref h list startIndex endIndex))
              (snd (reorder_ref h list startIndex endIndex))
            = reorder (contents h list) startIndex endIndex
         \<and> (r < next_ref h \<longrightarrow>
              contents (fst (reorder_ref h list startIndex endIndex)) r = contents h r)"
  using assms by (simp add: reorder_ref_result reorder_ref_contents)

theorem reorder_ref_keeps_input_witness:
  "(0::nat) < next_ref \<lparr>contents = (\<lambda>r. [])(0 := [Some (1::nat), Some 2, Some 3]), next_ref = 1\<rparr>
   \<and> contents
        (fst (reorder_ref
               \<lparr>contents = (\<lambda>r. [])(0 := [Some (1::nat), Some 2, Some 3]), next_ref = 1\<rparr> 0 0 2))
        0
      = [Some 1, Some 2, Some 3]
   \<and> snd (reorder_ref
            \<lparr>contents = (\<lambda>r. [])(0 := [Some (1::nat), Some 2, Some 3]), next_ref = 1\<rparr> 0 0 2)
      = 1"
  using reorder_ref_keeps_input
    [of 0 "\<lparr>contents = (\<lambda>r. [])(0 := [Some (1::nat), Some 2, Some 3]), next_ref = 1\<rparr>" 0 2 0]
  by (simp add: reorder_ref_result)

section \<open>A drop outside the list\<close>

text \<open>
  C10. When the drag result has no destination, \<open>onDragEnd\<close> returns the state it was
  given: the question list, and every other field, is what it was.
\<close>

theorem onDragEnd_no_destination:
  "destination result = None \<Longrightarrow> onDragEnd result s = s"
  by (simp add: onDragEnd_def)

theorem onDragEnd_no_destination_witness:
  "destination \<lparr>source_index = 0, destination = None\<rparr> = None
   \<and> onDragEnd \<lparr>source_index = 0, destination = None\<rparr> (addQuestion 17 ''abc'' initial_state)
      = addQuestion 17 ''abc'' initial_state"
  using onDragEnd_no_destination
    [of "\<lparr>source_index = 0, destination = None\<rparr>" "addQuestion 17 ''abc'' initial_state"]
  by simp

section \<open>Text extraction\<close>

lemma extract_pages_all:
  assumes "\<And>j. i < j \<Longrightarrow> j \<le> numPages pdf \<Longrightarrow>
             getPage pdf j = Inr (page j) \<and> getTextContent (page j) = Inr (tc j)"
  shows "extract_pages pdf i acc =
           Inr (acc @ document_text (map tc [Suc i..<Suc (numPages pdf)]))"
  using assms
proof (induction pdf i acc rule: extract_pages.induct)
  case (1 pdf i extractedText)
  show ?case
  proof (cases "i < numPages pdf")
    case False
    then show ?thesis
      by (simp add: extract_pages.simps [of pdf i] document_text_def)
  next
    case True
    then have p: "getPage pdf (i + 1) = Inr (page (i + 1))"
      and t: "getTextContent (page (i + 1)) = Inr (tc (i + 1))"
      using "1.prems" [of "i + 1"] by simp_all
    have IH: "extract_pages pdf (i + 1)
                (extractedText @ trim (join '' '' (map str (items (tc (i + 1))))) @ [CHR 0x0A]) =
              Inr ((extractedText @ trim (join '' '' (map str (items (tc (i + 1))))) @ [CHR 0x0A]) @
                   document_text (map tc [Suc (i + 1)..<Suc (numPages pdf)]))"
      using "1.IH" [OF True p t refl] "1.prems" by simp
    have up: "[Suc i..<Suc (numPages pdf)] = Suc i # [Suc (Suc i)..<Suc (numPages pdf)]"
      using True by (simp add: upt_conv_Cons)
    have "extract_pages pdf i extractedText =
            extract_pages pdf (i + 1)
              (extractedText @ trim (join '' '' (map str (items (tc (i + 1))))) @ [CHR 0x0A])"
      using True p t by (simp add: extract_pages.simps [of pdf i])
    also note IH
    also have "(extractedText @ trim (join '' '' (map str (items (tc (i + 1))))) @ [CHR 0x0A]) @
                 document_text (map tc [Suc (i + 1)..<Suc (numPages pdf)]) =
               extractedText @ document_text (map tc [Suc i..<Suc (numPages pdf)])"
      unfolding up by (simp add: document_text_def page_text_def del: upt_Suc)
    finally show ?thesis .
  qed
qed

text \<open>
  C7. When the file is read, the document is opened and every page from 1 to \<open>numPages\<close>
  gives its text content, \<open>parsePdf\<close> resolves with the text of the pages 1 to \<open>numPages\<close>
  in this order, each page being its items joined by single spaces, trimmed and followed
  by a line feed. When that text is empty after trimming, the function writes the warning
  to the console, and resolves all the same; otherwise it writes nothing.
\<close>

theorem parsePdf_text:
  assumes "readAsArrayBuffer file = Inr typedarray"
    and "getDocument typedarray = Inr pdf"
    and "\<And>j. 1 \<le> j \<Longrightarrow> j \<le> numPages pdf \<Longrightarrow>
           getPage pdf j = Inr (page j) \<and> getTextContent (page j) = Inr (tc j)"
  shows "snd (parsePdf getDocument file) = Inr (document_text (map tc [1..<Suc (numPages pdf)]))
         \<and> fst (parsePdf getDocument file) =
             (if trim (document_text (map tc [1..<Suc (numPages pdf)])) = []
              then [Warn_no_text] else [])"
proof -
  have "extract_pages pdf 0 [] = Inr ([] @ document_text (map tc [Suc 0..<Suc (numPages pdf)]))"
    using assms(3) by (intro extract_pages_all [where page = page and tc = tc]) simp
  then show ?thesis
    using assms(1,2) by (simp add: parsePdf_def)
qed

theorem parsePdf_text_witness:
  "readAsArrayBuffer pdf_file = Inr [37, 80, 68, 70]
   \<and> snd (parsePdf (\<lambda>bytes. Inr two_page_pdf) pdf_file) = Inr (''Hello world'' @ [CHR 0x0A, CHR 0x0A])
   \<and> fst (parsePdf (\<lambda>bytes. Inr two_page_pdf) pdf_file) = []
   \<and> snd (parsePdf (\<lambda>bytes. Inr blank_pdf) pdf_file) = Inr [CHR 0x0A]
   \<and> fst (parsePdf (\<lambda>bytes. Inr blank_pdf) pdf_file) = [Warn_no_text]"
proof -
  let ?tc2 = "\<lambda>j::nat. \<lparr>items = (if j = 1 then [\<lparr>str = ''Hello''\<rparr>, \<lparr>str = ''world ''\<rparr>] else [])\<rparr>"
  let ?tc1 = "\<lambda>j::nat. \<lparr>items = [\<lparr>str = '' ''\<rparr>]\<rparr>"
  have r: "readAsArrayBuffer pdf_file = Inr [37, 80, 68, 70]"
    by (simp add: pdf_file_def)
  have p2: "getPage two_page_pdf j = Inr \<lparr>getTextContent = Inr (?tc2 j)\<rparr>
            \<and> getTextContent \<lparr>getTextContent = Inr (?tc2 j)\<rparr> = Inr (?tc2 j)" for j
    by (simp add: two_page_pdf_def)
  have p1: "getPage blank_pdf j = Inr \<lparr>getTextContent = Inr (?tc1 j)\<rparr>
            \<and> getTextContent \<lparr>getTextContent = Inr (?tc1 j)\<rparr> = Inr (?tc1 j)" for j
    by (simp add: blank_pdf_def)
  have v2: "document_text (map ?tc2 [1..<Suc (numPages two_page_pdf)])
              = ''Hello world'' @ [CHR 0x0A, CHR 0x0A]"
    by code_simp
  have t2: "trim (''Hello world'' @ [CHR 0x0A, CHR 0x0A]) \<noteq> []"
    by code_simp
  have v1: "document_text (map ?tc1 [1..<Suc (numPages blank_pdf)]) = [CHR 0x0A]"
    by code_simp
  have t1: "trim [CHR 0x0A] = []"
    by code_simp
  have two: "snd (parsePdf (\<lambda>bytes. Inr two_page_pdf) pdf_file) = Inr (''Hello world'' @ [CHR 0x0A, CHR 0x0A])
             \<and> fst (parsePdf (\<lambda>bytes. Inr two_page_pdf) pdf_file) = []"
    using parsePdf_text [of pdf_file "[37, 80, 68, 70]" "\<lambda>bytes. Inr two_page_pdf" two_page_pdf
        "\<lambda>j. \<lparr>getTextContent = Inr (?tc2 j)\<rparr>" ?tc2, OF r refl p2]
    unfolding v2 using t2 by simp
  have one: "snd (parsePdf (\<lambda>bytes. Inr blank_pdf) pdf_file) = Inr [CHR 0x0A]
             \<and> fst (parsePdf (\<lambda>bytes. Inr blank_pdf) pdf_file) = [Warn_no_text]"
    using parsePdf_text [of pdf_file "[37, 80, 68, 70]" "\<lambda>bytes. Inr blank_pdf" blank_pdf
        "\<lambda>j. \<lparr>getTextContent = Inr (?tc1 j)\<rparr>" ?tc1, OF r refl p1]
    unfolding v1 using t1 by simp
  from r two one show ?thesis by simp
qed

section \<open>The fenced block\<close>

lemma text_before_None:
  "text_before pat s = None \<longleftrightarrow> \<not> (\<exists>a b. s = a @ pat @ b)"
proof (induction s)
  case Nil
  then show ?case by auto
next
  case (Cons c cs)
  have "(\<exists>a b. c # cs = a @ pat @ b) \<longleftrightarrow> prefix pat (c # cs) \<or> (\<exists>a b. cs = a @ pat @ b)"
  proof
    assume "\<exists>a b. c # cs = a @ pat @ b"
    then obtain a b where ab: "c # cs = a @ pat @ b" by blast
    show "prefix pat (c # cs) \<or> (\<exists>a b. cs = a @ pat @ b)"
    proof (cases a)
      case Nil
      with ab show ?thesis by (auto simp: prefix_def)
    next
      case (Cons x a')
      with ab have "cs = a' @ pat @ b" by simp
      then show ?thesis by blast
    qed
  next
    assume "prefix pat (c # cs) \<or> (\<exists>a b. cs = a @ pat @ b)"
    then show "\<exists>a b. c # cs = a @ pat @ b"
    proof
      assume "prefix pat (c # cs)"
      then obtain b where "c # cs = pat @ b" by (auto simp: prefix_def)
      then have "c # cs = [] @ pat @ b" by simp
      then show ?thesis by blast
    next
      assume "\<exists>a b. cs = a @ pat @ b"
      then obtain a b where "cs = a @ pat @ b" by blast
      then have "c # cs = (c # a) @ pat @ b" by simp
      then show ?thesis by blast
    qed
  qed
  with Cons.IH show ?case by auto
qed

lemma match_here_None:
  "match_here s = None \<longleftrightarrow> \<not> (\<exists>body post. s = fence_open @ body @ fence_close @ post)"
proof (cases "prefix fence_open s")
  case True
  then obtain r where r: "s = fence_open @ r" by (auto simp: prefix_def)
  then have "match_here s = text_before fence_close r"
    by (simp add: match_here_def)
  then show ?thesis
    by (simp add: text_before_None r)
next
  case False
  then have "\<not> (\<exists>body post. s = fence_open @ body @ fence_close @ post)"
    by (auto simp: prefix_def)
  with False show ?thesis by (simp add: match_here_def)
qed

lemma fenced_json_None: "fenced_json s = None \<longleftrightarrow> \<not> contains_fenced_block s"
proof (induction s)
  case Nil
  show ?case
    by (auto simp: match_here_None contains_fenced_block_def)
next
  case (Cons c cs)
  have "contains_fenced_block (c # cs) \<longleftrightarrow>
          (\<exists>body post. c # cs = fence_open @ body @ fence_close @ post) \<or> contains_fenced_block cs"
  proof
    assume "contains_fenced_block (c # cs)"
    then obtain pre body post where p: "c # cs = pre @ fence_open @ body @ fence_close @ post"
      unfolding contains_fenced_block_def by blast
    show "(\<exists>body post. c # cs = fence_open @ body @ fence_close @ post) \<or> contains_fenced_block cs"
    proof (cases pre)
      case Nil
      with p show ?thesis by auto
    next
      case (Cons x pre')
      with p have "cs = pre' @ fence_open @ body @ fence_close @ post" by simp
      then show ?thesis unfolding contains_fenced_block_def by blast
    qed
  next
    assume "(\<exists>body post. c # cs = fence_open @ body @ fence_close @ post) \<or> contains_fenced_block cs"
    then show "contains_fenced_block (c # cs)"
    proof
      assume "\<exists>body post. c # cs = fence_open @ body @ fence_close @ post"
      then obtain body post where "c # cs = [] @ fence_open @ body @ fence_close @ post" by auto
      then show ?thesis unfolding contains_fenced_block_def by blast
    next
      assume "contains_fenced_block cs"
      then obtain pre body post where "cs = pre @ fence_open @ body @ fence_close @ post"
        unfolding contains_fenced_block_def by blast
      then have "c # cs = (c # pre) @ fence_open @ body @ fence_close @ post" by simp
      then show ?thesis unfolding contains_fenced_block_def by blast
    qed
  qed
  note unfold = this
  show ?case
  proof (cases "match_here (c # cs)")
    case None
    then have "\<not> (\<exists>body post. c # cs = fence_open @ body @ fence_close @ post)"
      by (simp add: match_here_None)
    with None Cons.IH unfold show ?thesis by simp
  next
    case (Some g)
    then have "\<exists>body post. c # cs = fence_open @ body @ fence_close @ post"
      using match_here_None [of "c # cs"] by simp
    with Some unfold show ?thesis by simp
  qed
qed

text \<open>What the group captures is the text between an opening and a closing fence.\<close>

lemma text_before_Some: "text_before pat s = Some a \<Longrightarrow> \<exists>b. s = a @ pat @ b"
proof (induction s arbitrary: a)
  case Nil
  then show ?case by (simp split: if_splits)
next
  case (Cons c cs)
  show ?case
  proof (cases "prefix pat (c # cs)")
    case True
    with Cons.prems have "a = []" by simp
    with True show ?thesis by (auto simp: prefix_def)
  next
    case False
    with Cons.prems obtain a' where a': "text_before pat cs = Some a'" "a = c # a'"
      by auto
    from Cons.IH [OF a'(1)] obtain b where "cs = a' @ pat @ b" by blast
    with a'(2) have "c # cs = a @ pat @ b" by simp
    then show ?thesis by (rule exI)
  qed
qed

lemma match_here_Some:
  "match_here s = Some g \<Longrightarrow> \<exists>post. s = fence_open @ g @ fence_close @ post"
proof -
  assume m: "match_here s = Some g"
  then have p: "prefix fence_open s"
    by (simp add: match_here_def split: if_splits)
  then obtain r where r: "s = fence_open @ r" by (auto simp: prefix_def)
  with m have "text_before fence_close r = Some g"
    by (simp add: match_here_def)
  then obtain post where "r = g @ fence_close @ post"
    using text_before_Some by blast
  with r show ?thesis by simp
qed

lemma fenced_json_Some:
  "fenced_json s = Some g \<Longrightarrow> \<exists>pre post. s = pre @ fence_open @ g @ fence_close @ post"
proof (induction s)
  case Nil
  then obtain post where "[] = [] @ fence_open @ g @ fence_close @ post"
    using match_here_Some [of "[]" g] by auto
  then show ?case by blast
next
  case (Cons c cs)
  show ?case
  proof (cases "match_here (c # cs)")
    case (Some g')
    with Cons.prems have "match_here (c # cs) = Some g" by simp
    then obtain post where "c # cs = [] @ fence_open @ g @ fence_close @ post"
      using match_here_Some by fastforce
    then show ?thesis by blast
  next
    case None
    with Cons.prems have "fenced_json cs = Some g" by simp
    then obtain pre post where "cs = pre @ fence_open @ g @ fence_close @ post"
      using Cons.IH by blast
    then have "c # cs = (c # pre) @ fence_open @ g @ fence_close @ post" by simp
    then show ?thesis by blast
  qed
qed

lemma parse_and_restamp_error: "parse_and_restamp e j = Inl err \<Longrightarrow> err = MalformedJson"
  by (auto simp: parse_and_restamp_def split: option.splits sum.splits json.splits)

lemma validate_error: "validate q = Inl err \<Longrightarrow> err = MissingFields \<or> err = TypeError"
proof (cases q)
  case (Pair parsed qs)
  assume "validate q = Inl err"
  with Pair show ?thesis
    by (cases parsed) (auto simp: validate_def split: if_splits)
qed

lemma reply_content_chat_completion:
  "reply_content (chat_completion content) = Inr (Some (JStr content))"
  by (simp add: reply_content_def chat_completion_def)

text \<open>The matcher returns a text exactly when that text is the group described above.\<close>

lemma text_before_first:
  "text_before pat s = Some a \<longleftrightarrow>
     (\<exists>b. s = a @ pat @ b \<and> (\<forall>n<length a. \<not> occurs_at pat s n))"
proof (induction s arbitrary: a)
  case Nil
  show ?case by (auto simp: occurs_at_def)
next
  case (Cons c cs)
  show ?case
  proof (cases "prefix pat (c # cs)")
    case True
    then obtain b where b: "c # cs = pat @ b" by (auto simp: prefix_def)
    have "(\<exists>b. c # cs = a @ pat @ b \<and> (\<forall>n<length a. \<not> occurs_at pat (c # cs) n)) \<longleftrightarrow> a = []"
    proof
      assume "\<exists>b. c # cs = a @ pat @ b \<and> (\<forall>n<length a. \<not> occurs_at pat (c # cs) n)"
      then have "\<forall>n<length a. \<not> occurs_at pat (c # cs) n" by blast
      with True show "a = []"
        by (cases a) (auto simp: occurs_at_def)
    next
      assume "a = []"
      with b show "\<exists>b. c # cs = a @ pat @ b \<and> (\<forall>n<length a. \<not> occurs_at pat (c # cs) n)"
        by auto
    qed
    with True show ?thesis by auto
  next
    case False
    have "(\<exists>b. c # cs = a @ pat @ b \<and> (\<forall>n<length a. \<not> occurs_at pat (c # cs) n)) \<longleftrightarrow>
          (\<exists>a'. a = c # a' \<and> (\<exists>b. cs = a' @ pat @ b \<and> (\<forall>n<length a'. \<not> occurs_at pat cs n)))"
    proof
      assume "\<exists>b. c # cs = a @ pat @ b \<and> (\<forall>n<length a. \<not> occurs_at pat (c # cs) n)"
      then obtain b where b: "c # cs = a @ pat @ b"
        and n: "\<forall>n<length a. \<not> occurs_at pat (c # cs) n" by blast
      from b False obtain a' where a': "a = c # a'"
        by (cases a) (auto simp: prefix_def)
      with b have "cs = a' @ pat @ b" by simp
      moreover have "\<forall>m<length a'. \<not> occurs_at pat cs m"
      proof (intro allI impI)
        fix m assume "m < length a'"
        with a' have "Suc m < length a" by simp
        with n have "\<not> occurs_at pat (c # cs) (Suc m)" by blast
        then show "\<not> occurs_at pat cs m" by (simp add: occurs_at_def)
      qed
      ultimately show "\<exists>a'. a = c # a' \<and> (\<exists>b. cs = a' @ pat @ b \<and> (\<forall>n<length a'. \<not> occurs_at pat cs n))"
        using a' by blast
    next
      assume "\<exists>a'. a = c # a' \<and> (\<exists>b. cs = a' @ pat @ b \<and> (\<forall>n<length a'. \<not> occurs_at pat cs n))"
      then obtain a' b where a': "a = c # a'" and b: "cs = a' @ pat @ b"
        and n: "\<forall>n<length a'. \<not> occurs_at pat cs n" by blast
      have "\<forall>m<length a. \<not> occurs_at pat (c # cs) m"
      proof (intro allI impI)
        fix m assume m: "m < length a"
        show "\<not> occurs_at pat (c # cs) m"
        proof (cases m)
          case 0
          with False show ?thesis by (simp add: occurs_at_def)
        next
          case (Suc k)
          with m a' have "k < length a'" by simp
          with n have "\<not> occurs_at pat cs k" by blast
          with Suc show ?thesis by (simp add: occurs_at_def)
        qed
      qed
      moreover from a' b have "c # cs = a @ pat @ b" by simp
      ultimately show "\<exists>b. c # cs = a @ pat @ b \<and> (\<forall>n<length a. \<not> occurs_at pat (c # cs) n)"
        by blast
    qed
    moreover have "text_before pat (c # cs) = Some a \<longleftrightarrow>
                   (\<exists>a'. a = c # a' \<and> text_before pat cs = Some a')"
      using False by auto
    ultimately show ?thesis
      using Cons.IH by simp
  qed
qed


lemma match_here_first:
  "match_here s = Some g \<longleftrightarrow>
     (\<exists>post. s = fence_open @ g @ fence_close @ post
        \<and> (\<forall>n<length g. \<not> occurs_at fence_close (g @ fence_close @ post) n))"
proof (cases "prefix fence_open s")
  case True
  then obtain r where r: "s = fence_open @ r" by (auto simp: prefix_def)
  then have "match_here s = text_before fence_close r"
    by (simp add: match_here_def)
  then show ?thesis
    using r by (auto simp: text_before_first)
next
  case False
  then have "\<not> (\<exists>post. s = fence_open @ g @ fence_close @ post)"
    by (auto simp: prefix_def)
  with False show ?thesis by (auto simp: match_here_def)
qed

lemma extracted_block_Cons:
  "extracted_block (c # cs) g \<longleftrightarrow>
     (if prefix fence_open (c # cs) then match_here (c # cs) = Some g
      else extracted_block cs g)"
proof (cases "prefix fence_open (c # cs)")
  case True
  have "extracted_block (c # cs) g \<longleftrightarrow>
          (\<exists>post. c # cs = fence_open @ g @ fence_close @ post
             \<and> (\<forall>n<length g. \<not> occurs_at fence_close (g @ fence_close @ post) n))"
  proof
    assume "extracted_block (c # cs) g"
    then obtain pre post where p: "c # cs = pre @ fence_open @ g @ fence_close @ post"
      and n: "\<forall>n<length pre. \<not> occurs_at fence_open (c # cs) n"
      and m: "\<forall>n<length g. \<not> occurs_at fence_close (g @ fence_close @ post) n"
      unfolding extracted_block_def by blast
    from n True have "pre = []"
      by (cases pre) (auto simp: occurs_at_def)
    with p m show "\<exists>post. c # cs = fence_open @ g @ fence_close @ post
             \<and> (\<forall>n<length g. \<not> occurs_at fence_close (g @ fence_close @ post) n)"
      by auto
  next
    assume "\<exists>post. c # cs = fence_open @ g @ fence_close @ post
             \<and> (\<forall>n<length g. \<not> occurs_at fence_close (g @ fence_close @ post) n)"
    then obtain post where "c # cs = [] @ fence_open @ g @ fence_close @ post"
      and "\<forall>n<length g. \<not> occurs_at fence_close (g @ fence_close @ post) n"
      by auto
    then show "extracted_block (c # cs) g"
      unfolding extracted_block_def by (intro exI [of _ "[]"] exI [of _ post]) simp
  qed
  with True show ?thesis by (simp add: match_here_first)
next
  case False
  have "extracted_block (c # cs) g \<longleftrightarrow> extracted_block cs g"
  proof
    assume "extracted_block (c # cs) g"
    then obtain pre post where p: "c # cs = pre @ fence_open @ g @ fence_close @ post"
      and n: "\<forall>n<length pre. \<not> occurs_at fence_open (c # cs) n"
      and m: "\<forall>n<length g. \<not> occurs_at fence_close (g @ fence_close @ post) n"
      unfolding extracted_block_def by blast
    from p False obtain pre' where pre': "pre = c # pre'"
      by (cases pre) (auto simp: prefix_def)
    with p have "cs = pre' @ fence_open @ g @ fence_close @ post" by simp
    moreover have "\<forall>k<length pre'. \<not> occurs_at fence_open cs k"
    proof (intro allI impI)
      fix k assume "k < length pre'"
      with pre' have "Suc k < length pre" by simp
      with n have "\<not> occurs_at fence_open (c # cs) (Suc k)" by blast
      then show "\<not> occurs_at fence_open cs k" by (simp add: occurs_at_def)
    qed
    ultimately show "extracted_block cs g"
      using m unfolding extracted_block_def by blast
  next
    assume "extracted_block cs g"
    then obtain pre post where p: "cs = pre @ fence_open @ g @ fence_close @ post"
      and n: "\<forall>n<length pre. \<not> occurs_at fence_open cs n"
      and m: "\<forall>n<length g. \<not> occurs_at fence_close (g @ fence_close @ post) n"
      unfolding extracted_block_def by blast
    have "\<forall>k<length (c # pre). \<not> occurs_at fence_open (c # cs) k"
    proof (intro allI impI)
      fix k assume k: "k < length (c # pre)"
      show "\<not> occurs_at fence_open (c # cs) k"
      proof (cases k)
        case 0
        with False show ?thesis by (simp add: occurs_at_def)
      next
        case (Suc j)
        with k have "j < length pre" by simp
        with n have "\<not> occurs_at fence_open cs j" by blast
        with Suc show ?thesis by (simp add: occurs_at_def)
      qed
    qed
    moreover from p have "c # cs = (c # pre) @ fence_open @ g @ fence_close @ post" by simp
    ultimately show "extracted_block (c # cs) g"
      using m unfolding extracted_block_def by blast
  qed
  with False show ?thesis by simp
qed

text \<open>
  When the opening fence stands at the head and no closing fence follows it, no closing
  fence follows a later opening fence either.
\<close>

lemma no_close_after_head:
  assumes "prefix fence_open s" and "match_here s = None"
  shows "\<not> contains_fenced_block s"
proof
  assume "contains_fenced_block s"
  then obtain pre body post where p: "s = pre @ fence_open @ body @ fence_close @ post"
    unfolding contains_fenced_block_def by blast
  from assms(1) obtain r where r: "s = fence_open @ r" by (auto simp: prefix_def)
  with assms(2) have "text_before fence_close r = None"
    by (simp add: match_here_def)
  then have none: "\<not> (\<exists>a b. r = a @ fence_close @ b)"
    by (simp add: text_before_None)
  have "r = drop (length fence_open) s"
    using r by simp
  also have "\<dots> = drop (length fence_open) ((pre @ fence_open @ body) @ fence_close @ post)"
    using p by simp
  also have "\<dots> = drop (length fence_open) (pre @ fence_open @ body) @ fence_close @ post"
    by (simp del: append_assoc)
  finally have "\<exists>a b. r = a @ fence_close @ b" by blast
  with none show False by blast
qed

lemma fenced_json_extracted: "fenced_json s = Some g \<longleftrightarrow> extracted_block s g"
proof (induction s)
  case Nil
  have "\<not> extracted_block [] g"
    by (auto simp: extracted_block_def fence_open_def)
  then show ?case
    by (simp add: match_here_def fence_open_def)
next
  case (Cons c cs)
  show ?case
  proof (cases "prefix fence_open (c # cs)")
    case False
    then have "match_here (c # cs) = None" by (simp add: match_here_def)
    with False Cons.IH show ?thesis
      by (simp add: extracted_block_Cons)
  next
    case True
    show ?thesis
    proof (cases "match_here (c # cs)")
      case (Some g')
      with True show ?thesis by (simp add: extracted_block_Cons)
    next
      case None
      with True have "\<not> contains_fenced_block (c # cs)" by (rule no_close_after_head)
      then have "fenced_json (c # cs) = None"
        using fenced_json_None [of "c # cs"] by blast
      with True None show ?thesis by (simp add: extracted_block_Cons)
    qed
  qed
qed


lemma generateQuizWithGPT_after_match:
  assumes "token \<noteq> []"
    and "fetch e \<lparr>authorization = token, system_difficulty = difficulty params,
                  system_questionCount = questionCount params, user_pdfText = text\<rparr>
         = Inr response"
    and "ok response"
    and "json_body response = Inr data"
    and "reply_content data = Inr (Some (JStr content))"
    and "fenced_json content = Some jsonContent"
  shows "generateQuizWithGPT e token text params =
           (case parse_and_restamp e jsonContent of Inl err \<Rightarrow> Inl err | Inr quiz \<Rightarrow> validate quiz)"
  using assms by (simp add: generateQuizWithGPT_def)

text \<open>
  C6. Once the call has a reply whose content is a string: the call throws the
  invalid-format error exactly when the content contains no match of the pattern, that
  is, no opening fence followed, after any text, by a closing fence; when it contains
  one, there is a text that the pattern captures, from the leftmost opening fence to the
  first closing fence after it; and the call goes on with that text: it is what
  \<^verbatim>\<open>JSON.parse\<close> is given, and what the rest of the call computes from.
\<close>

theorem fenced_block_extraction:
  assumes "token \<noteq> []"
    and "fetch e \<lparr>authorization = token, system_difficulty = difficulty params,
                  system_questionCount = questionCount params, user_pdfText = text\<rparr>
         = Inr response"
    and "ok response"
    and "json_body response = Inr data"
    and "reply_content data = Inr (Some (JStr content))"
  shows "(generateQuizWithGPT e token text params = Inl InvalidFormat
            \<longleftrightarrow> \<not> contains_fenced_block content)
         \<and> (contains_fenced_block content \<longrightarrow> (\<exists>body. extracted_block content body))
         \<and> (extracted_block content body \<longrightarrow>
               generateQuizWithGPT e token text params =
                 (case parse_and_restamp e body of Inl err \<Rightarrow> Inl err | Inr quiz \<Rightarrow> validate quiz)
               \<and> (JSON_parse e body = None \<longrightarrow>
                    generateQuizWithGPT e token text params = Inl MalformedJson))"
proof (intro conjI impI)
  show "generateQuizWithGPT e token text params = Inl InvalidFormat
          \<longleftrightarrow> \<not> contains_fenced_block content"
  proof (cases "fenced_json content")
    case None
    with assms show ?thesis
      by (simp add: generateQuizWithGPT_def fenced_json_None [symmetric])
  next
    case (Some jsonContent)
    then have c: "contains_fenced_block content"
      using fenced_json_None [of content] by simp
    have "generateQuizWithGPT e token text params \<noteq> Inl InvalidFormat"
      using assms Some
      by (auto simp: generateQuizWithGPT_def split: sum.splits
          dest: parse_and_restamp_error validate_error)
    with c show ?thesis by simp
  qed
next
  assume "contains_fenced_block content"
  then obtain body where "fenced_json content = Some body"
    using fenced_json_None [of content] by auto
  then have "extracted_block content body"
    by (simp only: fenced_json_extracted)
  then show "\<exists>body. extracted_block content body" ..
next
  assume "extracted_block content body"
  then have "fenced_json content = Some body"
    by (simp only: fenced_json_extracted)
  then show r: "generateQuizWithGPT e token text params =
      (case parse_and_restamp e body of Inl err \<Rightarrow> Inl err | Inr quiz \<Rightarrow> validate quiz)"
    by (rule generateQuizWithGPT_after_match [OF assms])
  assume "JSON_parse e body = None"
  then have "parse_and_restamp e body = Inl MalformedJson"
    by (simp add: parse_and_restamp_def)
  with r show "generateQuizWithGPT e token text params = Inl MalformedJson"
    by simp
qed

theorem fenced_block_extraction_witness:
  "generateQuizWithGPT (replying ''I cannot help with that.'' []) ''sk-1'' ''text'' default_params
     = Inl InvalidFormat
   \<and> \<not> contains_fenced_block ''I cannot help with that.''
   \<and> extracted_block wrapped_reply two_questions
   \<and> generateQuizWithGPT (replying wrapped_reply [(two_questions, two_questions_parsed)])
        ''sk-1'' ''text'' default_params
      = Inr \<lparr>title = JStr ''Quiz'',
             quiz_questions =
               [\<lparr>qid = ''question-0-1700000000000'', props = [(''title'', JStr ''A'')]\<rparr>,
                \<lparr>qid = ''question-1-1700000000000'', props = [(''title'', JStr ''B'')]\<rparr>]\<rparr>"
proof -
  have f: "fenced_json ''I cannot help with that.'' = None"
    by (simp add: match_here_def fence_open_def)
  have g: "fenced_json wrapped_reply = Some two_questions"
    by (simp add: wrapped_reply_def match_here_def fence_open_def fence_close_def
        two_questions_def title_only_def)
  have x: "extracted_block wrapped_reply two_questions"
    using g by (simp only: fenced_json_extracted)
  have a: "generateQuizWithGPT (replying ''I cannot help with that.'' []) ''sk-1'' ''text''
             default_params = Inl InvalidFormat"
    by (simp add: generateQuizWithGPT_def replying_def reply_content_chat_completion f
        del: fenced_json.simps)
  have n: "\<not> contains_fenced_block ''I cannot help with that.''"
    using a
      fenced_block_extraction [of "''sk-1''"
        "replying ''I cannot help with that.'' []" default_params "''text''"
        "\<lparr>ok = True, status = 200, statusText = ''OK'',
          json_body = Inr (chat_completion ''I cannot help with that.'')\<rparr>"
        "chat_completion ''I cannot help with that.''" "''I cannot help with that.''"]
    by (simp add: replying_def reply_content_chat_completion)
  have t: "show_int 1700000000000 = ''1700000000000''"
    by (simp add: show_int_def show_nat.simps digit_char_def)
  have i: "show_nat 0 = ''0''" "show_nat (Suc 0) = ''1''"
    by (simp_all add: show_nat.simps digit_char_def)
  have p: "(case parse_and_restamp (replying wrapped_reply [(two_questions, two_questions_parsed)])
                  two_questions of
              Inl err \<Rightarrow> Inl err | Inr quiz \<Rightarrow> validate quiz)
           = Inr \<lparr>title = JStr ''Quiz'',
                  quiz_questions =
                    [\<lparr>qid = ''question-0-1700000000000'', props = [(''title'', JStr ''A'')]\<rparr>,
                     \<lparr>qid = ''question-1-1700000000000'', props = [(''title'', JStr ''B'')]\<rparr>]\<rparr>"
    by (simp add: parse_and_restamp_def validate_def Array_isArray_def replying_def
        two_questions_parsed_def restamp_def stamp_def stamp_id_def t i)
  have "generateQuizWithGPT (replying wrapped_reply [(two_questions, two_questions_parsed)])
          ''sk-1'' ''text'' default_params
        = (case parse_and_restamp (replying wrapped_reply [(two_questions, two_questions_parsed)])
                  two_questions of
              Inl err \<Rightarrow> Inl err | Inr quiz \<Rightarrow> validate quiz)"
    using x
      fenced_block_extraction [of "''sk-1''"
        "replying wrapped_reply [(two_questions, two_questions_parsed)]"
        default_params "''text''"
        "\<lparr>ok = True, status = 200, statusText = ''OK'',
          json_body = Inr (chat_completion wrapped_reply)\<rparr>"
        "chat_completion wrapped_reply" wrapped_reply two_questions]
    by (simp add: replying_def reply_content_chat_completion)
  with p have r: "generateQuizWithGPT (replying wrapped_reply [(two_questions, two_questions_parsed)])
          ''sk-1'' ''text'' default_params
        = Inr \<lparr>title = JStr ''Quiz'',
               quiz_questions =
                 [\<lparr>qid = ''question-0-1700000000000'', props = [(''title'', JStr ''A'')]\<rparr>,
                  \<lparr>qid = ''question-1-1700000000000'', props = [(''title'', JStr ''B'')]\<rparr>]\<rparr>"
    by (simp only:)
  from a n x r show ?thesis by (intro conjI)
qed


section \<open>Validation of the parsed reply\<close>

lemma not_an_array_malformed:
  assumes "JSON_parse e jsonContent = Some quiz"
    and "\<And>qs. get_prop ''questions'' (Some quiz) \<noteq> Inr (Some (JArr qs))"
  shows "parse_and_restamp e jsonContent = Inl MalformedJson"
  using assms
  by (auto simp: parse_and_restamp_def split: sum.splits option.splits json.splits)

lemma falsy_title_rejected:
  assumes "JSON_parse e jsonContent = Some quiz"
    and "get_prop ''questions'' (Some quiz) = Inr (Some (JArr qs))"
    and "get_prop ''title'' (Some quiz) = Inr t"
    and "falsy t"
  shows "parse_and_restamp e jsonContent = Inr (quiz, restamp (Date_now e) qs)"
    and "validate (quiz, restamp (Date_now e) qs) = Inl MissingFields"
  using assms by (simp_all add: parse_and_restamp_def validate_def)

text \<open>
  C3. The claim is that a parsed reply without a title, or without a question sequence,
  is rejected with the missing-fields error. The reply \<^verbatim>\<open>{"title":"T"}\<close> has no
  \<^verbatim>\<open>questions\<close>; on it \<^verbatim>\<open>quiz.questions.map\<close> throws inside the \<^verbatim>\<open>try\<close> block, and the
  function fails with the malformed-JSON error, before the check that carries the
  missing-fields message is reached.
\<close>

theorem absent_questions_reported_as_malformed:
  "get_prop ''questions'' (Some title_only_parsed) = Inr None
   \<and> generateQuizWithGPT
        (replying (fence_open @ title_only @ fence_close) [(title_only, title_only_parsed)])
        ''sk-1'' ''text'' default_params
      = Inl MalformedJson"
proof -
  have g: "fenced_json (fence_open @ title_only @ fence_close) = Some title_only"
    by (simp add: match_here_def fence_open_def fence_close_def title_only_def)
  show ?thesis
    by (simp add: generateQuizWithGPT_def replying_def reply_content_chat_completion g
        parse_and_restamp_def title_only_parsed_def del: fenced_json.simps)
qed

text \<open>
  C9. The claim is that a parsed reply whose title is present and equal to the empty
  string is rejected with the missing-fields error. The reply \<^verbatim>\<open>{"title":""}\<close> has such a
  title and no \<^verbatim>\<open>questions\<close>; on it \<^verbatim>\<open>quiz.questions.map\<close> throws inside the \<^verbatim>\<open>try\<close>
  block, as it does for C3, and the function fails with the malformed-JSON error, not
  with the missing-fields one.
\<close>

theorem empty_title_without_questions:
  "get_prop ''title'' (Some empty_title_only_parsed) = Inr (Some (JStr []))
   \<and> generateQuizWithGPT
        (replying (fence_open @ empty_title_only @ fence_close)
           [(empty_title_only, empty_title_only_parsed)])
        ''sk-1'' ''text'' default_params
      = Inl MalformedJson
   \<and> generateQuizWithGPT
        (replying (fence_open @ empty_title_only @ fence_close)
           [(empty_title_only, empty_title_only_parsed)])
        ''sk-1'' ''text'' default_params
      \<noteq> Inl MissingFields"
proof -
  have g: "fenced_json (fence_open @ empty_title_only @ fence_close) = Some empty_title_only"
    by (simp add: match_here_def fence_open_def fence_close_def empty_title_only_def)
  show ?thesis
    by (simp add: generateQuizWithGPT_def replying_def reply_content_chat_completion g
        parse_and_restamp_def empty_title_only_parsed_def del: fenced_json.simps)
qed

text \<open>
  On the replies that reach the check, those whose \<^verbatim>\<open>questions\<close> is an array, an empty
  title is rejected with the missing-fields error: \<^verbatim>\<open>!quiz.title\<close> takes the empty
  string for false.
\<close>

lemma empty_title_rejected:
  assumes "token \<noteq> []"
    and "fetch e \<lparr>authorization = token, system_difficulty = difficulty params,
                  system_questionCount = questionCount params, user_pdfText = text\<rparr>
         = Inr response"
    and "ok response"
    and "json_body response = Inr data"
    and "reply_content data = Inr (Some (JStr content))"
    and "fenced_json content = Some jsonContent"
    and "JSON_parse e jsonContent = Some quiz"
    and "get_prop ''title'' (Some quiz) = Inr (Some (JStr []))"
    and "get_prop ''questions'' (Some quiz) = Inr (Some (JArr qs))"
  shows "generateQuizWithGPT e token text params = Inl MissingFields"
proof -
  have f: "falsy (Some (JStr []))" by simp
  have "parse_and_restamp e jsonContent = Inr (quiz, restamp (Date_now e) qs)"
    and "validate (quiz, restamp (Date_now e) qs) = Inl MissingFields"
    by (rule falsy_title_rejected [OF assms(7) assms(9) assms(8) f])+
  then show ?thesis
    using generateQuizWithGPT_after_match [OF assms(1-6)] by simp
qed

lemma empty_title_rejected_example:
  "fenced_json (fence_open @ empty_title_quiz @ fence_close) = Some empty_title_quiz
   \<and> get_prop ''title'' (Some empty_title_quiz_parsed) = Inr (Some (JStr []))
   \<and> get_prop ''questions'' (Some empty_title_quiz_parsed) = Inr (Some (JArr []))
   \<and> generateQuizWithGPT
        (replying (fence_open @ empty_title_quiz @ fence_close)
           [(empty_title_quiz, empty_title_quiz_parsed)])
        ''sk-1'' ''text'' default_params
      = Inl MissingFields"
proof -
  have g: "fenced_json (fence_open @ empty_title_quiz @ fence_close) = Some empty_title_quiz"
    by (simp add: match_here_def fence_open_def fence_close_def empty_title_quiz_def)
  have t: "get_prop ''title'' (Some empty_title_quiz_parsed) = Inr (Some (JStr []))"
    by (simp add: empty_title_quiz_parsed_def)
  have q: "get_prop ''questions'' (Some empty_title_quiz_parsed) = Inr (Some (JArr []))"
    by (simp add: empty_title_quiz_parsed_def)
  have "generateQuizWithGPT
          (replying (fence_open @ empty_title_quiz @ fence_close)
             [(empty_title_quiz, empty_title_quiz_parsed)])
          ''sk-1'' ''text'' default_params
        = Inl MissingFields"
    using g t q
      empty_title_rejected [of "''sk-1''"
        "replying (fence_open @ empty_title_quiz @ fence_close)
           [(empty_title_quiz, empty_title_quiz_parsed)]"
        default_params "''text''"
        "\<lparr>ok = True, status = 200, statusText = ''OK'',
          json_body = Inr (chat_completion (fence_open @ empty_title_quiz @ fence_close))\<rparr>"
        "chat_completion (fence_open @ empty_title_quiz @ fence_close)"
        "fence_open @ empty_title_quiz @ fence_close" empty_title_quiz
        empty_title_quiz_parsed "[]"]
    by (simp add: replying_def reply_content_chat_completion del: fenced_json.simps)
  with g t q show ?thesis by simp
qed

section \<open>The question count\<close>

lemma to_double_exact: "n < 2 ^ 53 \<Longrightarrow> to_double n = Some n"
  by (simp add: to_double_def)

lemma questionCount_default:
  "falsy_number (parseInt10 v) \<Longrightarrow>
     questionCount (quizParams (onQuestionCountChange v s)) = Finite 5"
  by (simp add: onQuestionCountChange_def)

lemma questionCount_nonzero:
  "questionCount (quizParams (onQuestionCountChange v s)) \<noteq> Finite 0
   \<and> questionCount (quizParams (onQuestionCountChange v s)) \<noteq> NaN"
  by (simp add: onQuestionCountChange_def falsy_number_def)

text \<open>Beyond 2 to the power 53 the integer read is rounded, a tie going to the even side.\<close>

lemma parseInt10_rounds:
  "parseInt10 ''9007199254740993'' = Finite 9007199254740992"
proof -
  have b: "bit_length 9007199254740993 = 54"
    by (simp add: bit_length.simps)
  have "to_double 9007199254740993 = Some 9007199254740992"
    by (simp add: to_double_def b)
  then show ?thesis
    by (simp add: parseInt10_def is_space_def is_digit_def digit_val_def)
qed

text \<open>
  C4. The claim is that the stored question count is a positive integer whatever is typed,
  the default 5 replacing what is not valid. The default replaces only \<^verbatim>\<open>NaN\<close> and zero:
  on the input \<^verbatim>\<open>-3\<close> the handler stores the negative number.
\<close>

theorem negative_count_is_stored:
  "parseInt10 ''-3'' = Finite (- 3)
   \<and> questionCount (quizParams (onQuestionCountChange ''-3'' initial_state)) = Finite (- 3)"
  by (simp add: onQuestionCountChange_def parseInt10_def is_space_def is_digit_def digit_val_def
      to_double_def falsy_number_def)

section \<open>Failures and the state\<close>

text \<open>
  C1, as stated, fails for the upload: the handler stores the name of the selected file
  before it parses it, so when the parse fails the alert is raised and \<open>pdfName\<close> is
  already the new name, next to the text of the previous document.
\<close>

theorem failed_upload_changes_pdfName:
  "fst (handlePdfUpload rejecting_document (Some pdf_file) loaded_state)
     = Some Alert_unreadable_pdf
   \<and> pdfName (snd (handlePdfUpload rejecting_document (Some pdf_file) loaded_state))
     \<noteq> pdfName loaded_state"
  by (simp add: handlePdfUpload_def parsePdf_def rejecting_document_def pdf_file_def
      loaded_state_def initial_state_def)

lemma failed_upload_state:
  "fst (handlePdfUpload getDocument (Some f) s) \<noteq> None \<Longrightarrow>
     snd (handlePdfUpload getDocument (Some f) s) = s\<lparr>pdfName := name f\<rparr>"
  by (cases "snd (parsePdf getDocument f)") (auto simp: handlePdfUpload_def)

lemma failed_generation_state:
  "fst (generateQuiz e s) \<noteq> None \<Longrightarrow>
     snd (generateQuiz e s) = s \<or> snd (generateQuiz e s) = s\<lparr>loading := False\<rparr>"
  by (cases "generateQuizWithGPT e (gptToken s) (pdfText s) (quizParams s)")
    (auto simp: generateQuiz_def)

text \<open>
  C1, amended. An operation fails when its handler raises an alert. When \<open>generateQuiz\<close>
  fails, the text, the name, the questions, the title, the parameters and the token are
  what they were. When \<open>handlePdfUpload\<close> fails, the text, the questions, the title, the
  parameters and the token are what they were.
\<close>

theorem failure_keeps_state:
  "(fst (generateQuiz e s) \<noteq> None \<longrightarrow>
      pdfText (snd (generateQuiz e s)) = pdfText s
      \<and> pdfName (snd (generateQuiz e s)) = pdfName s
      \<and> questions (snd (generateQuiz e s)) = questions s
      \<and> quizTitle (snd (generateQuiz e s)) = quizTitle s
      \<and> quizParams (snd (generateQuiz e s)) = quizParams s
      \<and> gptToken (snd (generateQuiz e s)) = gptToken s)
   \<and> (fst (handlePdfUpload getDocument (Some f) s) \<noteq> None \<longrightarrow>
      pdfText (snd (handlePdfUpload getDocument (Some f) s)) = pdfText s
      \<and> questions (snd (handlePdfUpload getDocument (Some f) s)) = questions s
      \<and> quizTitle (snd (handlePdfUpload getDocument (Some f) s)) = quizTitle s
      \<and> quizParams (snd (handlePdfUpload getDocument (Some f) s)) = quizParams s
      \<and> gptToken (snd (handlePdfUpload getDocument (Some f) s)) = gptToken s)"
  using failed_generation_state [of e s] failed_upload_state [of getDocument f s] by auto

theorem failure_keeps_state_witness:
  "fst (generateQuiz unauthorized loaded_state) = Some (Alert_error (ApiError 401 ''Unauthorized''))
   \<and> questions (snd (generateQuiz unauthorized loaded_state)) = questions loaded_state
   \<and> quizTitle (snd (generateQuiz unauthorized loaded_state)) = quizTitle loaded_state
   \<and> pdfName (snd (generateQuiz unauthorized loaded_state)) = pdfName loaded_state
   \<and> fst (handlePdfUpload rejecting_document (Some pdf_file) loaded_state)
       = Some Alert_unreadable_pdf
   \<and> pdfText (snd (handlePdfUpload rejecting_document (Some pdf_file) loaded_state))
       = pdfText loaded_state
   \<and> questions (snd (handlePdfUpload rejecting_document (Some pdf_file) loaded_state))
       = questions loaded_state"
proof -
  have a: "fst (generateQuiz unauthorized loaded_state)
             = Some (Alert_error (ApiError 401 ''Unauthorized''))"
    by (simp add: generateQuiz_def generateQuizWithGPT_def unauthorized_def loaded_state_def
        initial_state_def)
  have b: "fst (handlePdfUpload rejecting_document (Some pdf_file) loaded_state)
             = Some Alert_unreadable_pdf"
    by (simp add: handlePdfUpload_def parsePdf_def rejecting_document_def pdf_file_def)
  show ?thesis
    using a b failure_keeps_state [of unauthorized loaded_state rejecting_document pdf_file]
    by simp
qed

section \<open>Identifiers\<close>

lemma digit_char_in: "d < 10 \<Longrightarrow> digit_char d \<in> set ''0123456789''"
  unfolding digit_char_def by (rule nth_mem) simp

lemma digit_val_digit_char: "d < 10 \<Longrightarrow> digit_val (digit_char d) = d"
proof -
  assume "d < 10"
  then have "d \<in> {0, 1, 2, 3, 4, 5, 6, 7, 8, 9}" by auto
  then show ?thesis
    by (auto simp: digit_char_def digit_val_def)
qed

lemma show_nat_digits: "set (show_nat n) \<subseteq> set ''0123456789''"
proof (induction n rule: show_nat.induct)
  case (1 n)
  show ?case
  proof (cases "n < 10")
    case True
    then show ?thesis
      using digit_char_in [of n] by (simp add: show_nat.simps [of n])
  next
    case False
    have "n mod 10 < 10" by simp
    then have "digit_char (n mod 10) \<in> set ''0123456789''" by (rule digit_char_in)
    with False "1.IH" show ?thesis
      by (simp add: show_nat.simps [of n])
  qed
qed

text \<open>Reading the digits back gives the number, so the rendering is injective.\<close>

lemma read_show_nat: "foldl (\<lambda>acc c. 10 * acc + digit_val c) 0 (show_nat n) = n"
proof (induction n rule: show_nat.induct)
  case (1 n)
  show ?case
  proof (cases "n < 10")
    case True
    then show ?thesis
      by (simp add: show_nat.simps [of n] digit_val_digit_char)
  next
    case False
    with "1.IH" show ?thesis
      by (simp add: show_nat.simps [of n] digit_val_digit_char)
  qed
qed

lemma show_nat_inj:
  assumes "show_nat n = show_nat m"
  shows "n = m"
proof -
  have "n = foldl (\<lambda>acc c. 10 * acc + digit_val c) 0 (show_nat n)"
    by (simp only: read_show_nat)
  also have "\<dots> = foldl (\<lambda>acc c. 10 * acc + digit_val c) 0 (show_nat m)"
    by (simp only: assms)
  also have "\<dots> = m"
    by (simp only: read_show_nat)
  finally show ?thesis .
qed

lemma dash_not_in_show_nat: "CHR ''-'' \<notin> set (show_nat n)"
  using show_nat_digits [of n] by auto

lemma split_at_first:
  assumes "xs @ c # a = ys @ c # b" and "c \<notin> set xs" and "c \<notin> set ys"
  shows "xs = ys"
proof -
  have tw: "c \<notin> set zs \<Longrightarrow> takeWhile (\<lambda>x. x \<noteq> c) (zs @ c # d) = zs" for zs d
    by (induction zs) auto
  have "xs = takeWhile (\<lambda>x. x \<noteq> c) (xs @ c # a)"
    by (rule tw [OF assms(2), symmetric])
  also have "\<dots> = takeWhile (\<lambda>x. x \<noteq> c) (ys @ c # b)"
    by (simp only: assms(1))
  also have "\<dots> = ys"
    by (rule tw [OF assms(3)])
  finally show ?thesis .
qed

lemma stamp_id_inj: "stamp_id now i = stamp_id now j \<Longrightarrow> i = j"
proof -
  assume "stamp_id now i = stamp_id now j"
  then have "show_nat i @ CHR ''-'' # show_int (now i) = show_nat j @ CHR ''-'' # show_int (now j)"
    by (simp add: stamp_id_def)
  then have "show_nat i = show_nat j"
    by (rule split_at_first) (rule dash_not_in_show_nat)+
  then show "i = j" by (rule show_nat_inj)
qed

lemma map_qid_restamp: "map qid (restamp now qs) = map (stamp_id now) [0..<length qs]"
proof -
  have "map qid (restamp now qs) = map (stamp_id now \<circ> fst) (enumerate 0 qs)"
    by (simp add: restamp_def stamp_def split_beta comp_def)
  also have "\<dots> = map (stamp_id now) (map fst (enumerate 0 qs))"
    by (simp only: map_map)
  finally show ?thesis by simp
qed

text \<open>The identifiers that one generation stamps are pairwise distinct.\<close>

lemma distinct_restamp: "distinct (map qid (restamp now qs))"
proof -
  have "inj_on (stamp_id now) (set [0..<length qs])"
    by (rule inj_onI) (rule stamp_id_inj)
  then show ?thesis
    by (simp add: map_qid_restamp distinct_map)
qed

section \<open>The identifiers of the list stay distinct\<close>

lemma ids_Some: "questions s = map Some xs \<Longrightarrow> question_ids s = map qid xs"
  by (simp add: question_ids_def List.map_filter_def comp_def)

lemma no_undefined_map_Some: "None \<notin> set qs \<Longrightarrow> \<exists>xs. qs = map Some xs"
proof (induction qs)
  case Nil
  then show ?case by simp
next
  case (Cons q qs)
  then obtain xs where "qs = map Some xs" by auto
  moreover from Cons.prems obtain x where "q = Some x" by (cases q) auto
  ultimately have "q # qs = map Some (x # xs)" by simp
  then show ?case by (rule exI)
qed

lemma mset_map_filter:
  "mset (List.map_filter f xs) = image_mset (the \<circ> f) (filter_mset (\<lambda>x. f x \<noteq> None) (mset xs))"
  by (simp add: List.map_filter_def)

lemma mset_ids:
  assumes "mset (questions s') = mset (questions s)
           \<or> mset (questions s') = add_mset None (mset (questions s))"
  shows "mset (question_ids s') = mset (question_ids s)"
  using assms by (auto simp: question_ids_def mset_map_filter)

text \<open>
  A callback that reads \<^verbatim>\<open>q.id\<close> gets through the list only when no slot is
  \<^verbatim>\<open>undefined\<close>, and then \<^verbatim>\<open>filter\<close> and \<^verbatim>\<open>map\<close> do what they do on lists.
\<close>

lemma filter_js_Some:
  "filter_js (\<lambda>q. case id_of q of Inl err \<Rightarrow> Inl err | Inr i \<Rightarrow> Inr (i \<noteq> ident)) (map Some xs)
     = Inr (map Some (filter (\<lambda>q. qid q \<noteq> ident) xs))"
  by (induction xs) (simp_all add: id_of_def)

lemma map_js_Some:
  "map_js (\<lambda>q. case id_of q of
                  Inl err \<Rightarrow> Inl err
                | Inr i \<Rightarrow> Inr (if i = ident then map_option g q else q)) (map Some xs)
     = Inr (map Some (map (\<lambda>q. if qid q = ident then g q else q) xs))"
  by (induction xs) (simp_all add: id_of_def)

lemma filter_js_Inr:
  "filter_js (\<lambda>q. case id_of q of Inl err \<Rightarrow> Inl err | Inr i \<Rightarrow> Inr (P i)) qs = Inr ys
     \<Longrightarrow> None \<notin> set qs"
proof (induction qs arbitrary: ys)
  case Nil
  then show ?case by simp
next
  case (Cons q qs)
  from Cons.prems obtain x where x: "q = Some x"
    by (cases q) (auto simp: id_of_def)
  with Cons.prems obtain zs where
    "filter_js (\<lambda>q. case id_of q of Inl err \<Rightarrow> Inl err | Inr i \<Rightarrow> Inr (P i)) qs = Inr zs"
    by (auto simp: id_of_def split: sum.splits)
  then have "None \<notin> set qs" by (rule Cons.IH)
  with x show ?case by simp
qed

lemma map_js_Inr:
  "map_js (\<lambda>q. case id_of q of Inl err \<Rightarrow> Inl err | Inr i \<Rightarrow> Inr (h i q)) qs = Inr ys
     \<Longrightarrow> None \<notin> set qs"
proof (induction qs arbitrary: ys)
  case Nil
  then show ?case by simp
next
  case (Cons q qs)
  from Cons.prems obtain x where x: "q = Some x"
    by (cases q) (auto simp: id_of_def)
  with Cons.prems obtain zs where
    "map_js (\<lambda>q. case id_of q of Inl err \<Rightarrow> Inl err | Inr i \<Rightarrow> Inr (h i q)) qs = Inr zs"
    by (auto simp: id_of_def split: sum.splits)
  then have "None \<notin> set qs" by (rule Cons.IH)
  with x show ?case by simp
qed

lemma removeQuestion_ids:
  assumes "None \<notin> set (questions s)"
  shows "\<exists>s'. removeQuestion ident s = Inr s' \<and> None \<notin> set (questions s')
              \<and> question_ids s' = filter (\<lambda>i. i \<noteq> ident) (question_ids s)"
proof -
  from assms obtain xs where xs: "questions s = map Some xs"
    using no_undefined_map_Some by blast
  let ?s' = "s\<lparr>questions := map Some (filter (\<lambda>q. qid q \<noteq> ident) xs)\<rparr>"
  have r: "removeQuestion ident s = Inr ?s'"
    by (simp add: removeQuestion_def xs filter_js_Some)
  have "question_ids ?s' = map qid (filter (\<lambda>q. qid q \<noteq> ident) xs)"
    by (rule ids_Some) simp
  also have "\<dots> = filter (\<lambda>i. i \<noteq> ident) (map qid xs)"
    by (simp add: filter_map comp_def)
  also have "map qid xs = question_ids s"
    using xs by (rule ids_Some [symmetric])
  finally have "question_ids ?s' = filter (\<lambda>i. i \<noteq> ident) (question_ids s)" .
  moreover have "None \<notin> set (questions ?s')" by auto
  ultimately show ?thesis using r by blast
qed

lemma edit_question_ids:
  assumes "None \<notin> set (questions s)"
  shows "\<exists>s'. edit_question field ident v s = Inr s' \<and> None \<notin> set (questions s')
              \<and> question_ids s' = question_ids s"
proof -
  from assms obtain xs where xs: "questions s = map Some xs"
    using no_undefined_map_Some by blast
  let ?g = "\<lambda>q. if qid q = ident then q\<lparr>props := set_prop field (JStr v) (props q)\<rparr> else q"
  let ?s' = "s\<lparr>questions := map Some (map ?g xs)\<rparr>"
  have r: "edit_question field ident v s = Inr ?s'"
    by (simp add: edit_question_def xs map_js_Some)
  have "question_ids ?s' = map qid (map ?g xs)"
    by (rule ids_Some) simp
  also have "\<dots> = map qid xs"
    by (induction xs) auto
  also have "\<dots> = question_ids s"
    using xs by (rule ids_Some [symmetric])
  finally have "question_ids ?s' = question_ids s" .
  moreover have "None \<notin> set (questions ?s')" by auto
  ultimately show ?thesis using r by blast
qed

text \<open>
  A drag with any indices either permutes the slots or, when nothing was at the source
  index, adds one \<^verbatim>\<open>undefined\<close> slot.
\<close>

lemma mset_take_drop: "mset (take k ys) + mset (drop k ys) = mset ys"
  by (simp only: mset_append [symmetric] append_take_drop_id)

lemma mset_splice_insert: "mset (fst (splice ys b 0 [v])) = add_mset v (mset ys)"
proof -
  have "fst (splice ys b 0 [v]) =
          take (relative_index (length ys) b) ys @ [v] @ drop (relative_index (length ys) b) ys"
    by (simp add: splice_def Let_def)
  then have "mset (fst (splice ys b 0 [v])) =
          add_mset v (mset (take (relative_index (length ys) b) ys)
                      + mset (drop (relative_index (length ys) b) ys))"
    by simp
  then show ?thesis
    by (simp only: mset_take_drop)
qed

lemma reorder_unfold:
  "reorder qs a b = fst (splice (fst (splice qs a 1 [])) b 0 [first_elem (snd (splice qs a 1 []))])"
  by (simp add: reorder_def Let_def split_beta)

lemma mset_reorder:
  "mset (reorder qs a b) = mset qs \<or> mset (reorder qs a b) = add_mset None (mset qs)"
proof -
  define k where "k = relative_index (length qs) a"
  have kle: "k \<le> length qs"
    by (auto simp: k_def relative_index_def)
  show ?thesis
  proof (cases "k < length qs")
    case True
    then have d: "min (nat (max 1 0)) (length qs - k) = 1" by simp
    have one: "take 1 (drop k qs) = [qs ! k]"
      using True by (simp add: take_Suc_conv_app_nth)
    have first: "splice qs a 1 [] = (take k qs @ drop (Suc k) qs, [qs ! k])"
      unfolding splice_def Let_def k_def [symmetric] d one by simp
    have "qs = take k qs @ qs ! k # drop (Suc k) qs"
      using True by (rule id_take_nth_drop)
    then have "mset qs = mset (take k qs @ qs ! k # drop (Suc k) qs)"
      by (rule arg_cong)
    then have m: "add_mset (qs ! k) (mset (take k qs @ drop (Suc k) qs)) = mset qs"
      by simp
    have "mset (reorder qs a b) = add_mset (qs ! k) (mset (take k qs @ drop (Suc k) qs))"
      unfolding reorder_unfold first by (simp only: fst_conv snd_conv first_elem_def list.case mset_splice_insert)
    with m show ?thesis by simp
  next
    case False
    with kle have keq: "k = length qs" by simp
    have first: "splice qs a 1 [] = (qs, [])"
      unfolding splice_def Let_def k_def [symmetric] keq by simp
    have "mset (reorder qs a b) = add_mset None (mset qs)"
      unfolding reorder_unfold first by (simp only: fst_conv snd_conv first_elem_def list.case mset_splice_insert)
    then show ?thesis by simp
  qed
qed

lemma onDragEnd_ids: "mset (question_ids (onDragEnd result s)) = mset (question_ids s)"
proof (cases "destination result")
  case None
  then show ?thesis by (simp add: onDragEnd_def)
next
  case (Some d)
  then have "questions (onDragEnd result s) = reorder (questions s) (source_index result) d"
    by (rule onDragEnd_reorder)
  then show ?thesis
    using mset_reorder [of "questions s" "source_index result" d] by (intro mset_ids) simp
qed

lemma onDragEnd_in_range:
  assumes "None \<notin> set (questions s)" and "drop_in_range (DragEnd result) s"
  shows "None \<notin> set (questions (onDragEnd result s))"
proof (cases "destination result")
  case None
  then show ?thesis using assms(1) by (simp add: onDragEnd_def)
next
  case (Some d)
  with assms(2) have b: "0 \<le> source_index result" "nat (source_index result) < length (questions s)"
    "0 \<le> d" "nat d < length (questions s)"
    by simp_all
  have q: "questions (onDragEnd result s) = reorder (questions s) (source_index result) d"
    using Some by (rule onDragEnd_reorder)
  have "mset (reorder (questions s) (source_index result) d) = mset (questions s)"
    using b by (simp add: reorder_take_drop mset_insert_at mset_remove_at)
  with q have "mset (questions (onDragEnd result s)) = mset (questions s)" by simp
  then have "set (questions (onDragEnd result s)) = set (questions s)"
    by (rule mset_eq_setD)
  with assms(1) show ?thesis by simp
qed


lemma parse_and_restamp_Inr:
  "parse_and_restamp e j = Inr q \<Longrightarrow> \<exists>qs. snd q = restamp (Date_now e) qs"
  by (auto simp: parse_and_restamp_def split: option.splits sum.splits json.splits)

lemma validate_Inr: "validate q = Inr quiz \<Longrightarrow> quiz_questions quiz = snd q"
  by (auto simp: validate_def split: prod.splits sum.splits if_splits)

lemma generateQuizWithGPT_Inr:
  assumes "generateQuizWithGPT e token text params = Inr quiz"
  shows "\<exists>j q. parse_and_restamp e j = Inr q \<and> validate q = Inr quiz"
proof -
  from assms have t: "token \<noteq> []"
    by (auto simp: generateQuizWithGPT_def split: if_splits)
  let ?req = "\<lparr>authorization = token, system_difficulty = difficulty params,
               system_questionCount = questionCount params, user_pdfText = text\<rparr>"
  from assms t obtain response where f: "fetch e ?req = Inr response"
    by (cases "fetch e ?req") (auto simp: generateQuizWithGPT_def)
  from assms t f have k: "ok response"
    by (auto simp: generateQuizWithGPT_def split: if_splits)
  from assms t f k obtain data where b: "json_body response = Inr data"
    by (cases "json_body response") (auto simp: generateQuizWithGPT_def)
  from assms t f k b obtain c where c: "reply_content data = Inr c"
    by (cases "reply_content data") (auto simp: generateQuizWithGPT_def)
  from assms t f k b c obtain content where s: "c = Some (JStr content)"
    by (auto simp: generateQuizWithGPT_def split: option.splits json.splits)
  from assms t f k b c s obtain j where j: "fenced_json content = Some j"
    by (cases "fenced_json content") (auto simp: generateQuizWithGPT_def)
  from assms t f k b c s j obtain q where q: "parse_and_restamp e j = Inr q"
    by (cases "parse_and_restamp e j") (auto simp: generateQuizWithGPT_def)
  from assms t f k b c s j q have "validate q = Inr quiz"
    by (simp add: generateQuizWithGPT_def)
  with q show ?thesis by blast
qed

text \<open>A generation leaves the list as it is, or replaces it with re-stamped questions.\<close>

lemma generateQuiz_questions:
  "questions (snd (generateQuiz e s)) = questions s
   \<or> (\<exists>qs. questions (snd (generateQuiz e s)) = map Some (restamp (Date_now e) qs))"
proof (cases "gptToken s = [] \<or> pdfText s = []")
  case True
  then show ?thesis by (simp add: generateQuiz_def)
next
  case False
  show ?thesis
  proof (cases "generateQuizWithGPT e (gptToken s) (pdfText s) (quizParams s)")
    case (Inl err)
    with False show ?thesis by (simp add: generateQuiz_def)
  next
    case (Inr quiz)
    then obtain qs where "quiz_questions quiz = restamp (Date_now e) qs"
      using generateQuizWithGPT_Inr parse_and_restamp_Inr validate_Inr by metis
    with Inr False have "questions (snd (generateQuiz e s)) = map Some (restamp (Date_now e) qs)"
      by (simp add: generateQuiz_def)
    then show ?thesis by blast
  qed
qed

lemma generateQuiz_ids:
  assumes "distinct (question_ids s)"
  shows "distinct (question_ids (snd (generateQuiz e s)))"
  using generateQuiz_questions [of e s]
proof
  assume "questions (snd (generateQuiz e s)) = questions s"
  with assms show ?thesis by (simp add: question_ids_def)
next
  assume "\<exists>qs. questions (snd (generateQuiz e s)) = map Some (restamp (Date_now e) qs)"
  then obtain qs where "questions (snd (generateQuiz e s)) = map Some (restamp (Date_now e) qs)"
    by blast
  then have "question_ids (snd (generateQuiz e s)) = map qid (restamp (Date_now e) qs)"
    by (rule ids_Some)
  then show ?thesis by (simp add: distinct_restamp)
qed

lemma generateQuiz_no_undefined:
  assumes "None \<notin> set (questions s)"
  shows "None \<notin> set (questions (snd (generateQuiz e s)))"
  using generateQuiz_questions [of e s] assms by auto

lemma handlePdfUpload_questions:
  "questions (snd (handlePdfUpload getDocument file s)) = questions s"
  by (simp add: handlePdfUpload_def Let_def split: option.splits sum.splits)

lemma addQuestion_ids: "question_ids (addQuestion now rnd s) = question_ids s @ [new_id now rnd]"
  by (simp add: addQuestion_def question_ids_def List.map_filter_def Let_def)

text \<open>One step keeps the identifiers distinct, whatever the indices of a drag.\<close>

lemma distinct_step:
  assumes "distinct (question_ids s)" and "add_fresh ev s" and "step ev s = Inr s'"
  shows "distinct (question_ids s')"
proof (cases ev)
  case (SetGptToken v)
  with assms show ?thesis by (auto simp: setGptToken_def question_ids_def)
next
  case (PdfUpload g f)
  with assms(3) have "questions s' = questions s"
    by (auto simp: handlePdfUpload_questions)
  with assms(1) show ?thesis by (simp add: question_ids_def)
next
  case (DifficultyChange v)
  with assms show ?thesis by (auto simp: onDifficultyChange_def question_ids_def)
next
  case (QuestionCountChange v)
  with assms show ?thesis by (auto simp: onQuestionCountChange_def question_ids_def)
next
  case (GenerateQuiz e)
  with assms(3) have "s' = snd (generateQuiz e s)" by simp
  with assms(1) show ?thesis by (simp add: generateQuiz_ids)
next
  case (SetQuizTitle v)
  with assms show ?thesis by (auto simp: setQuizTitle_def question_ids_def)
next
  case (AddQuestion now rnd)
  with assms show ?thesis by (auto simp: addQuestion_ids)
next
  case (DragEnd r)
  with assms(3) have "s' = onDragEnd r s" by simp
  then have "mset (question_ids s') = mset (question_ids s)"
    by (simp add: onDragEnd_ids)
  then have "distinct (question_ids s') = distinct (question_ids s)"
    by (rule mset_eq_imp_distinct_iff)
  with assms(1) show ?thesis by simp
next
  case (EditTitle i v)
  with assms(3) have e: "edit_question ''title'' i v s = Inr s'" by simp
  then have "None \<notin> set (questions s)"
    by (auto simp: edit_question_def split: sum.splits dest: map_js_Inr)
  from edit_question_ids [OF this, of "''title''" i v] e assms(1) show ?thesis by auto
next
  case (EditDescription i v)
  with assms(3) have e: "edit_question ''description'' i v s = Inr s'" by simp
  then have "None \<notin> set (questions s)"
    by (auto simp: edit_question_def split: sum.splits dest: map_js_Inr)
  from edit_question_ids [OF this, of "''description''" i v] e assms(1) show ?thesis by auto
next
  case (EditType i v)
  with assms(3) have e: "edit_question ''type'' i v s = Inr s'" by simp
  then have "None \<notin> set (questions s)"
    by (auto simp: edit_question_def split: sum.splits dest: map_js_Inr)
  from edit_question_ids [OF this, of "''type''" i v] e assms(1) show ?thesis by auto
next
  case (RemoveQuestion i)
  with assms(3) have e: "removeQuestion i s = Inr s'" by simp
  then have "None \<notin> set (questions s)"
    by (auto simp: removeQuestion_def split: sum.splits dest: filter_js_Inr)
  from removeQuestion_ids [OF this, of i] e assms(1) show ?thesis by auto
qed

text \<open>With indices of the list, no step throws and no slot becomes \<^verbatim>\<open>undefined\<close>.\<close>

lemma progress_step:
  assumes "None \<notin> set (questions s)" and "drop_in_range ev s"
  shows "\<exists>s'. step ev s = Inr s' \<and> None \<notin> set (questions s')"
proof (cases ev)
  case (SetGptToken v)
  with assms(1) show ?thesis by (simp add: setGptToken_def)
next
  case (PdfUpload g f)
  with assms(1) show ?thesis by (simp add: handlePdfUpload_questions)
next
  case (DifficultyChange v)
  with assms(1) show ?thesis by (simp add: onDifficultyChange_def)
next
  case (QuestionCountChange v)
  with assms(1) show ?thesis by (simp add: onQuestionCountChange_def)
next
  case (GenerateQuiz e)
  with assms(1) show ?thesis by (simp add: generateQuiz_no_undefined)
next
  case (SetQuizTitle v)
  with assms(1) show ?thesis by (simp add: setQuizTitle_def)
next
  case (AddQuestion now rnd)
  with assms(1) show ?thesis by (simp add: addQuestion_def Let_def)
next
  case (DragEnd r)
  with assms show ?thesis by (simp add: onDragEnd_in_range del: drop_in_range.simps)
next
  case (EditTitle i v)
  with edit_question_ids [OF assms(1), of "''title''" i v] show ?thesis by auto
next
  case (EditDescription i v)
  with edit_question_ids [OF assms(1), of "''description''" i v] show ?thesis by auto
next
  case (EditType i v)
  with edit_question_ids [OF assms(1), of "''type''" i v] show ?thesis by auto
next
  case (RemoveQuestion i)
  with removeQuestion_ids [OF assms(1), of i] show ?thesis by auto
qed

lemma distinct_run:
  "distinct (question_ids s) \<Longrightarrow> along add_fresh evs s \<Longrightarrow> run evs s = Inr s'
     \<Longrightarrow> distinct (question_ids s')"
proof (induction evs arbitrary: s)
  case Nil
  then show ?case by simp
next
  case (Cons ev evs)
  from Cons.prems(3) obtain s1 where s1: "step ev s = Inr s1" "run evs s1 = Inr s'"
    by (cases "step ev s") auto
  from Cons.prems(2) s1(1) have f: "add_fresh ev s" "along add_fresh evs s1" by simp_all
  from Cons.prems(1) f(1) s1(1) have "distinct (question_ids s1)" by (rule distinct_step)
  from this f(2) s1(2) show ?case by (rule Cons.IH)
qed

lemma progress_run:
  "None \<notin> set (questions s) \<Longrightarrow> along drop_in_range evs s
     \<Longrightarrow> \<exists>s'. run evs s = Inr s' \<and> None \<notin> set (questions s')"
proof (induction evs arbitrary: s)
  case Nil
  then show ?case by simp
next
  case (Cons ev evs)
  from Cons.prems have "drop_in_range ev s" by simp
  with Cons.prems(1) obtain s1 where s1: "step ev s = Inr s1" "None \<notin> set (questions s1)"
    using progress_step by blast
  with Cons.prems(2) have "along drop_in_range evs s1" by simp
  with s1(2) obtain s' where "run evs s1 = Inr s'" "None \<notin> set (questions s')"
    using Cons.IH by blast
  with s1(1) show ?case by simp
qed

text \<open>
  C2, as stated, fails: the identifier of a manual add is made of the clock and of a random
  draw, and nothing compares it with the identifiers of the list. Two adds that get the
  same millisecond and the same draw leave two questions with one identifier.
\<close>

theorem repeated_draw_repeats_id:
  "run [AddQuestion 1700000000000 ''k3j9x0a1b'', AddQuestion 1700000000000 ''k3j9x0a1b'']
       initial_state
     = Inr (addQuestion 1700000000000 ''k3j9x0a1b''
             (addQuestion 1700000000000 ''k3j9x0a1b'' initial_state))
   \<and> \<not> distinct (question_ids (addQuestion 1700000000000 ''k3j9x0a1b''
                       (addQuestion 1700000000000 ''k3j9x0a1b'' initial_state)))"
  by (simp add: addQuestion_def question_ids_def List.map_filter_def initial_state_def)

text \<open>
  C2, amended. Start from a state whose question list is empty, and take any sequence of
  handler events (manual add, delete, field edit, drag, generation, and the handlers that
  do not touch the list) in which every manual add draws an identifier that no question
  of the list has at that moment. In the state the sequence ends in, the identifiers of
  the questions in the list are pairwise distinct. The sequence does end in a state, with
  no handler throwing and no slot of the list \<^verbatim>\<open>undefined\<close>, when every drop inside the
  list comes with indices of the list.
\<close>

theorem ids_stay_distinct:
  assumes "questions s = []" and "along add_fresh evs s"
  shows "(run evs s = Inr s' \<longrightarrow> distinct (question_ids s'))
         \<and> (along drop_in_range evs s \<longrightarrow>
              (\<exists>s''. run evs s = Inr s'' \<and> None \<notin> set (questions s'')))"
proof -
  have d: "distinct (question_ids s)"
    using assms(1) by (simp add: question_ids_def List.map_filter_def)
  have n: "None \<notin> set (questions s)"
    using assms(1) by simp
  show ?thesis
    using distinct_run [OF d assms(2)] progress_run [OF n] by blast
qed

theorem ids_stay_distinct_witness:
  "questions loaded_state = []
   \<and> along add_fresh sample_events loaded_state
   \<and> along drop_in_range sample_events loaded_state
   \<and> (\<exists>s'. run sample_events loaded_state = Inr s'
           \<and> None \<notin> set (questions s') \<and> distinct (question_ids s'))"
proof -
  have q: "questions loaded_state = []"
    by (simp add: loaded_state_def initial_state_def)
  have t: "show_int 1700000000000 = ''1700000000000''"
    by (simp add: show_int_def show_nat.simps digit_char_def)
  have i: "show_nat 0 = ''0''" "show_nat (Suc 0) = ''1''"
    by (simp_all add: show_nat.simps digit_char_def)
  have g: "fenced_json (fence_open @ two_questions @ fence_close) = Some two_questions"
    by (simp add: match_here_def fence_open_def fence_close_def two_questions_def)
  have fresh: "along add_fresh sample_events loaded_state"
    by (simp add: sample_events_def loaded_state_def initial_state_def addQuestion_def
        generateQuiz_def generateQuizWithGPT_def replying_def reply_content_chat_completion g
        parse_and_restamp_def validate_def Array_isArray_def restamp_def stamp_def stamp_id_def
        new_id_def t i
        onDragEnd_def splice_def relative_index_def first_elem_def
        edit_question_def id_of_def removeQuestion_def two_questions_parsed_def
        handlePdfUpload_def parsePdf_def rejecting_document_def pdf_file_def Let_def
        question_ids_def List.map_filter_def
        del: fenced_json.simps)
  have range: "along drop_in_range sample_events loaded_state"
    by (simp add: sample_events_def loaded_state_def initial_state_def addQuestion_def
        generateQuiz_def generateQuizWithGPT_def replying_def reply_content_chat_completion g
        parse_and_restamp_def validate_def Array_isArray_def restamp_def stamp_def stamp_id_def
        new_id_def t i
        onDragEnd_def splice_def relative_index_def first_elem_def
        edit_question_def id_of_def removeQuestion_def two_questions_parsed_def
        handlePdfUpload_def parsePdf_def rejecting_document_def pdf_file_def Let_def
        del: fenced_json.simps)
  from ids_stay_distinct [OF q fresh] range q fresh show ?thesis
    by blast
qed


end
